theory Spec2Isabelle
  imports Main "HOL-Library.List_Lexorder" "HOL-Library.AList" "HOL-Library.Word"
begin

section \<open>Python values\<close>

text \<open>
  A Python \<open>str\<close> is a sequence of Unicode code points and is modelled as a list of
  natural numbers, one per code point; \<open>ord\<close> is Python's \<open>ord\<close> on the characters
  that have an Isabelle literal, and \<open>py\<close> turns a literal into a \<open>str\<close>. A \<open>bytes\<close>
  object is a list of 8-bit words. Python compares two \<open>str\<close> values lexicographically
  by code point, which is the order of lists of naturals.
\<close>

type_synonym str = "nat list"

type_synonym bytes = "8 word list"

definition ord :: "char \<Rightarrow> nat" where
  "ord c = of_char c"

definition py :: "string \<Rightarrow> str" where
  "py s = map ord s"

text \<open>A bytes literal \<open>b'...'\<close>.\<close>

definition pyb :: "string \<Rightarrow> bytes" where
  "pyb s = map (\<lambda>c. of_nat (ord c)) s"

abbreviation LF :: nat where
  "LF \<equiv> 0x0A"

abbreviation CR :: nat where
  "CR \<equiv> 0x0D"

text \<open>The exceptions that the two programs can raise and do not all catch.\<close>

datatype exn =
  OSError | ValueError | UnicodeEncodeError | UnicodeDecodeError
  | NotADirectoryError | IsADirectoryError | ReError

text \<open>\<open>s.startswith(p)\<close> and \<open>s.endswith(p)\<close>.\<close>

definition startswith :: "str \<Rightarrow> str \<Rightarrow> bool" where
  "startswith s p = (take (length p) s = p)"

definition endswith :: "str \<Rightarrow> str \<Rightarrow> bool" where
  "endswith s p = (length p \<le> length s \<and> drop (length s - length p) s = p)"

text \<open>\<open>old in s\<close>: \<open>old\<close> occurs in \<open>s\<close> as a substring.\<close>

fun contains :: "str \<Rightarrow> str \<Rightarrow> bool" where
  "contains [] old = (old = [])"
| "contains (c # cs) old = (startswith (c # cs) old \<or> contains cs old)"

text \<open>
  \<open>s.split(sep)\<close> for a separator of one character, the only form the sources use:
  the pieces between the occurrences of \<open>sep\<close>, never an empty list.
\<close>

fun str_split :: "nat \<Rightarrow> str \<Rightarrow> str list" where
  "str_split sep [] = [[]]"
| "str_split sep (c # cs) =
     (if c = sep then [] # str_split sep cs
      else (case str_split sep cs of
              [] \<Rightarrow> [[c]]
            | w # ws \<Rightarrow> (c # w) # ws))"

text \<open>
  \<open>s.rsplit(sep, 1)\<close> for a separator of one character: at most one split, at the
  last occurrence of \<open>sep\<close>.
\<close>

definition str_rsplit1 :: "nat \<Rightarrow> str \<Rightarrow> str list" where
  "str_rsplit1 sep s =
     (if sep \<in> set s
      then [rev (tl (dropWhile (\<lambda>c. c \<noteq> sep) (rev s))),
            rev (takeWhile (\<lambda>c. c \<noteq> sep) (rev s))]
      else [s])"

text \<open>
  \<open>s.replace(old, new)\<close>: every occurrence of \<open>old\<close>, found from the left and not
  overlapping, is replaced by \<open>new\<close>. For an empty \<open>old\<close> Python puts \<open>new\<close> before
  every character and at the end.
\<close>

function str_replace :: "str \<Rightarrow> str \<Rightarrow> str \<Rightarrow> str" where
  "str_replace old new [] = (if old = [] then new else [])"
| "str_replace old new (c # cs) =
     (if old = [] then new @ concat (map (\<lambda>d. d # new) (c # cs))
      else if startswith (c # cs) old
           then new @ str_replace old new (drop (length old) (c # cs))
           else c # str_replace old new cs)"
  by pat_completeness auto
termination
  by (relation "measure (\<lambda>(old, new, s). length s)") auto

text \<open>
  \<open>c.isspace()\<close> for one character: the code points that \<open>str.strip()\<close> without an
  argument removes (the Unicode white space of CPython: the ASCII controls 9 to 13 and
  28 to 31, the space, U+0085, U+00A0, U+1680, U+2000 to U+200A, U+2028, U+2029, U+202F,
  U+205F and U+3000).
\<close>

definition isspace :: "nat \<Rightarrow> bool" where
  "isspace c =
     ((0x09 \<le> c \<and> c \<le> 0x0D) \<or> (0x1C \<le> c \<and> c \<le> 0x20) \<or> c = 0x85 \<or> c = 0xA0
      \<or> c = 0x1680 \<or> (0x2000 \<le> c \<and> c \<le> 0x200A) \<or> c = 0x2028 \<or> c = 0x2029
      \<or> c = 0x202F \<or> c = 0x205F \<or> c = 0x3000)"

definition strip :: "str \<Rightarrow> str" where
  "strip s = rev (dropWhile isspace (rev (dropWhile isspace s)))"

section \<open>Text files\<close>

text \<open>
  A file holds bytes. Both programs open their text files with \<open>encoding='utf-8'\<close>:
  writing encodes the text, reading decodes the bytes. \<open>encode_utf8\<close> is
  \<open>s.encode('utf-8')\<close>, which raises \<open>UnicodeEncodeError\<close> (here \<open>None\<close>) on a surrogate.
  Line ends are those of POSIX: writing leaves \<open>\n\<close> as it is.
\<close>

definition scalar_value :: "nat \<Rightarrow> bool" where
  "scalar_value c = (c < 0xD800 \<or> (0xE000 \<le> c \<and> c < 0x110000))"

definition utf8_char :: "nat \<Rightarrow> nat list" where
  "utf8_char c =
     (if c < 0x80 then [c]
      else if c < 0x800 then [0xC0 + c div 0x40, 0x80 + c mod 0x40]
      else if c < 0x10000
           then [0xE0 + c div 0x1000, 0x80 + c div 0x40 mod 0x40, 0x80 + c mod 0x40]
           else [0xF0 + c div 0x40000, 0x80 + c div 0x1000 mod 0x40,
                 0x80 + c div 0x40 mod 0x40, 0x80 + c mod 0x40])"

definition encode_utf8 :: "str \<Rightarrow> bytes option" where
  "encode_utf8 s =
     (if \<forall>c \<in> set s. scalar_value c
      then Some (map of_nat (concat (map utf8_char s)))
      else None)"

text \<open>
  The decoder is the strict one: it refuses (\<open>None\<close>, \<open>UnicodeDecodeError\<close>) a stray
  continuation byte, an overlong sequence, an encoded surrogate and anything above
  U+10FFFF. With \<open>final\<close> it also refuses a sequence that the end of the input cuts
  short; without, it stops in front of such a sequence, as the incremental decoder of
  a text file does between two reads, provided the bytes it has seen of it can still
  start a character.
\<close>

definition continuation :: "nat \<Rightarrow> bool" where
  "continuation b = (0x80 \<le> b \<and> b < 0xC0)"

definition second_byte :: "nat \<Rightarrow> nat \<Rightarrow> bool" where
  "second_byte b b1 =
     (continuation b1
      \<and> (if b = 0xE0 then 0xA0 \<le> b1
         else if b = 0xED then b1 < 0xA0
         else if b = 0xF0 then 0x90 \<le> b1
         else if b = 0xF4 then b1 < 0x90
         else True))"

definition cut_short :: "bool \<Rightarrow> str option" where
  "cut_short final = (if final then None else Some [])"

fun utf8_decode :: "bool \<Rightarrow> nat list \<Rightarrow> str option" where
  "utf8_decode final [] = Some []"
| "utf8_decode final (b # bs) =
     (if b < 0x80 then map_option (Cons b) (utf8_decode final bs)
      else if 0xC2 \<le> b \<and> b < 0xE0 then
        (case bs of
           [] \<Rightarrow> cut_short final
         | b1 # r \<Rightarrow>
             if continuation b1
             then map_option (Cons ((b - 0xC0) * 0x40 + (b1 - 0x80))) (utf8_decode final r)
             else None)
      else if 0xE0 \<le> b \<and> b < 0xF0 then
        (case bs of
           [] \<Rightarrow> cut_short final
         | [b1] \<Rightarrow> if second_byte b b1 then cut_short final else None
         | b1 # b2 # r \<Rightarrow>
             (let c = (b - 0xE0) * 0x1000 + (b1 - 0x80) * 0x40 + (b2 - 0x80)
              in if continuation b1 \<and> continuation b2 \<and> 0x800 \<le> c \<and> scalar_value c
                 then map_option (Cons c) (utf8_decode final r)
                 else None))
      else if 0xF0 \<le> b \<and> b < 0xF5 then
        (case bs of
           [] \<Rightarrow> cut_short final
         | [b1] \<Rightarrow> if second_byte b b1 then cut_short final else None
         | [b1, b2] \<Rightarrow>
             if second_byte b b1 \<and> continuation b2 then cut_short final else None
         | b1 # b2 # b3 # r \<Rightarrow>
             (let c = (b - 0xF0) * 0x40000 + (b1 - 0x80) * 0x1000
                      + (b2 - 0x80) * 0x40 + (b3 - 0x80)
              in if continuation b1 \<and> continuation b2 \<and> continuation b3
                    \<and> 0x10000 \<le> c \<and> c < 0x110000
                 then map_option (Cons c) (utf8_decode final r)
                 else None))
      else None)"

text \<open>\<open>b.decode('utf-8')\<close>, and what the decoder of a text file has made of the bytes
  read so far.\<close>

definition decode_utf8 :: "bytes \<Rightarrow> str option" where
  "decode_utf8 bs = utf8_decode True (map unat bs)"

definition decode_utf8_so_far :: "bytes \<Rightarrow> str option" where
  "decode_utf8_so_far bs = utf8_decode False (map unat bs)"

text \<open>
  Reading in text mode with the default \<open>newline=None\<close> turns \<open>\r\n\<close> and a lone
  \<open>\r\<close> into \<open>\n\<close> (universal newlines); iterating over the file then yields the
  lines, each with its final \<open>\n\<close>, the last one without when the text does not end in
  one. Between two reads a \<open>\r\<close> at the end of the decoded text is held back, since a
  \<open>\n\<close> may follow it.
\<close>

fun universal_newlines :: "str \<Rightarrow> str" where
  "universal_newlines [] = []"
| "universal_newlines [c] = (if c = CR then [LF] else [c])"
| "universal_newlines (c # d # cs) =
     (if c = CR \<and> d = LF then LF # universal_newlines cs
      else if c = CR then LF # universal_newlines (d # cs)
      else c # universal_newlines (d # cs))"

fun iter_lines :: "str \<Rightarrow> str list" where
  "iter_lines [] = []"
| "iter_lines (c # cs) =
     (if c = LF then [LF] # iter_lines cs
      else (case iter_lines cs of
              [] \<Rightarrow> [[c]]
            | l # ls \<Rightarrow> (c # l) # ls))"

definition held_back :: "str \<Rightarrow> str" where
  "held_back text = (if text \<noteq> [] \<and> last text = CR then butlast text else text)"

definition complete_lines :: "str \<Rightarrow> str list" where
  "complete_lines text = filter (\<lambda>l. l \<noteq> [] \<and> last l = LF) (iter_lines text)"

text \<open>
  A text file is read piece by piece: CPython asks the file for 8192 bytes at a time
  and decodes each piece as it arrives, and a read may return fewer bytes than were
  asked for. \<open>reads\<close> lists the sizes the reads return, in order (at least one byte, at
  most 8192; full reads once the list is used up); \<open>split_reads\<close> cuts the content of
  a file into the pieces these reads return.
\<close>

definition read_size :: "nat list \<Rightarrow> nat" where
  "read_size reads = (case reads of [] \<Rightarrow> 8192 | n # ns \<Rightarrow> min (max n 1) 8192)"

function split_reads :: "nat list \<Rightarrow> bytes \<Rightarrow> bytes list" where
  "split_reads reads [] = []"
| "split_reads reads (b # bs) =
     take (read_size reads) (b # bs)
     # split_reads (tl reads) (drop (read_size reads) (b # bs))"
  by pat_completeness auto
termination
  by (relation "measure (\<lambda>(reads, bs). length bs)")
     (auto simp: read_size_def split: list.splits)

section \<open>scraper.py\<close>

subsection \<open>Constants and the filename sanitizer\<close>

text \<open>\<^verbatim>\<open>QWANTZ_BASE_URL = 'https://www.qwantz.com/'\<close>\<close>

definition QWANTZ_BASE_URL :: str where
  "QWANTZ_BASE_URL = py ''https://www.qwantz.com/''"

text \<open>
  \<^verbatim>\<open>INVALID_FILENAME_CHARS = ['/', '\\', '?', '%', '*', ':', '|', '"', '<', '>', '.']\<close>
\<close>

definition INVALID_FILENAME_CHARS :: "nat list" where
  "INVALID_FILENAME_CHARS =
     py [CHR ''/'', CHR 0x5C, CHR ''?'', CHR ''%'', CHR ''*'', CHR '':'',
         CHR ''|'', CHR 0x22, CHR ''<'', CHR ''>'', CHR ''.'']"

text \<open>
  \<^verbatim>\<open>return ''.join(char for char in filename if char not in INVALID_FILENAME_CHARS)\<close>
\<close>

definition sanitize_filename :: "str \<Rightarrow> str" where
  "sanitize_filename filename =
     filter (\<lambda>char. char \<notin> set INVALID_FILENAME_CHARS) filename"

subsection \<open>The parsed page and the extractor\<close>

text \<open>
  A parsed page is the tree BeautifulSoup builds: a tag has a name, the values of its
  \<open>class\<close> attribute (a list, empty when the attribute is absent), its other
  attributes (a dictionary from names to strings) and its children; the other nodes
  are strings. The \<open>BeautifulSoup\<close> object is the root tag. \<open>soup.find(name, class_=c)\<close>
  is the first tag below the root, in document order, with that name and with \<open>c\<close>
  among its classes, or \<open>None\<close>.
\<close>

datatype node =
  Tag (tag_name: str) (tag_classes: "str list") (tag_attrs: "str \<rightharpoonup> str")
      (tag_contents: "node list")
  | NavigableString str

fun self_and_descendants :: "node \<Rightarrow> node list" where
  "self_and_descendants (Tag n cs at ch) =
     Tag n cs at ch # concat (map self_and_descendants ch)"
| "self_and_descendants (NavigableString s) = [NavigableString s]"

fun descendants :: "node \<Rightarrow> node list" where
  "descendants (Tag n cs at ch) = concat (map self_and_descendants ch)"
| "descendants (NavigableString s) = []"

fun matches :: "str \<Rightarrow> str \<Rightarrow> node \<Rightarrow> bool" where
  "matches nm cls (Tag n cs at ch) = (n = nm \<and> cls \<in> set cs)"
| "matches nm cls (NavigableString s) = False"

definition soup_find :: "node \<Rightarrow> str \<Rightarrow> str \<Rightarrow> node option" where
  "soup_find soup nm cls = List.find (matches nm cls) (descendants soup)"

text \<open>The dictionary \<open>{'image_url': ..., 'title': ...}\<close> that the extractor returns.\<close>

record comic_data =
  image_url :: str
  title :: str

text \<open>
  \<open>extract_comic_data\<close>: a tag is always true in \<open>if not comic_img\<close>, so that test
  fails only on \<open>None\<close>; \<open>if not image_src\<close> holds for \<open>None\<close> and for the empty
  string. The messages it prints are not modelled.
\<close>

definition extract_comic_data :: "node \<Rightarrow> comic_data option" where
  "extract_comic_data soup =
     (case soup_find soup (py ''img'') (py ''comic'') of
        None \<Rightarrow> None
      | Some comic_img \<Rightarrow>
          (case tag_attrs comic_img (py ''src'') of
             None \<Rightarrow> None
           | Some image_src \<Rightarrow>
               if image_src = [] then None
               else Some \<lparr>image_url = QWANTZ_BASE_URL @ image_src,
                          title = (case tag_attrs comic_img (py ''title'') of
                                     None \<Rightarrow> py ''unknown''
                                   | Some t \<Rightarrow> t)\<rparr>))"

subsection \<open>The network and the working directory\<close>

text \<open>
  The environment of one run. \<open>web_page url\<close> is what \<open>requests.get\<close>,
  \<open>raise_for_status\<close> and the parser give for the page, \<open>web_content url\<close> the body of
  a binary resource; \<open>None\<close> stands for a \<open>RequestException\<close>, which both fetchers
  catch. \<open>io path\<close> says how opening \<open>path\<close> for writing and writing to it goes:
  well; \<open>open\<close> raises an \<open>OSError\<close> (\<open>IOError\<close> is the same class); \<open>open\<close> raises
  \<open>ValueError\<close> (a path with a NUL); or the data is cut off after \<open>n\<close> bytes by an
  \<open>OSError\<close> when it is written out.
\<close>

datatype io_outcome = IoOk | OpenOSError | OpenValueError | WriteOSError nat

record env =
  web_page :: "str \<Rightarrow> node option"
  web_content :: "str \<Rightarrow> bytes option"
  io :: "str \<Rightarrow> io_outcome"

text \<open>
  The state a run changes: the files of the working directory, by the path they were
  opened with, and the paths opened for writing so far, oldest first.
\<close>

record world =
  files :: "str \<rightharpoonup> bytes"
  opened :: "str list"

definition fetch_webpage :: "env \<Rightarrow> str \<Rightarrow> node option" where
  "fetch_webpage e url = web_page e url"

definition download_image :: "env \<Rightarrow> str \<Rightarrow> bytes option" where
  "download_image e url = web_content e url"

text \<open>
  \<open>save_image\<close>: \<open>open(filepath, 'wb')\<close> and one \<open>write\<close>; an \<open>IOError\<close> is caught and
  gives \<open>False\<close>.
\<close>

definition save_image :: "env \<Rightarrow> world \<Rightarrow> bytes \<Rightarrow> str \<Rightarrow> (exn + bool) \<times> world" where
  "save_image e w image_data filepath =
     (let w1 = w\<lparr>opened := opened w @ [filepath]\<rparr> in
      case io e filepath of
        OpenOSError \<Rightarrow> (Inr False, w1)
      | OpenValueError \<Rightarrow> (Inl ValueError, w1)
      | WriteOSError n \<Rightarrow>
          (Inr False, w1\<lparr>files := (files w1)(filepath \<mapsto> take n image_data)\<rparr>)
      | IoOk \<Rightarrow> (Inr True, w1\<lparr>files := (files w1)(filepath \<mapsto> image_data)\<rparr>))"

text \<open>\<^verbatim>\<open>return url.split('.')[-1].split('?')[0]\<close>\<close>

definition get_file_extension :: "str \<Rightarrow> str" where
  "get_file_extension url =
     hd (str_split (ord CHR ''?'') (last (str_split (ord CHR ''.'') url)))"

text \<open>
  The names \<open>get_current_comic\<close> derives from the image URL (lines 168, 169, 177, 178
  and 183 of scraper.py).
\<close>

definition image_filename_of :: "str \<Rightarrow> str" where
  "image_filename_of url = last (str_split (ord CHR ''/'') url)"

definition base_filename_of :: "str \<Rightarrow> str" where
  "base_filename_of url = hd (str_rsplit1 (ord CHR ''.'') (image_filename_of url))"

definition image_path_of :: "str \<Rightarrow> str" where
  "image_path_of url = base_filename_of url @ py ''.'' @ get_file_extension url"

definition metadata_path_of :: "str \<Rightarrow> str" where
  "metadata_path_of url = base_filename_of url @ py ''_metadata.txt''"

text \<open>The two lines the metadata file gets, one \<open>f.write\<close> each.\<close>

definition title_line :: "comic_data \<Rightarrow> str" where
  "title_line d = py ''Title: '' @ title d @ [LF]"

definition image_url_line :: "comic_data \<Rightarrow> str" where
  "image_url_line d = py ''Image URL: '' @ image_url d @ [LF]"

text \<open>
  Lines 184 to 190: \<open>open(metadata_path, 'w', encoding='utf-8')\<close> and two writes, in
  a \<open>try\<close> that catches \<open>IOError\<close>. A write of a text that has no UTF-8 encoding raises
  \<open>UnicodeEncodeError\<close>, which is not caught here; the file then keeps what was written
  before, and an \<open>OSError\<close> from writing that out on close takes the place of the
  encoding error.
\<close>

definition write_metadata :: "env \<Rightarrow> world \<Rightarrow> comic_data \<Rightarrow> str \<Rightarrow> (exn + bool) \<times> world" where
  "write_metadata e w d metadata_path =
     (let w1 = w\<lparr>opened := opened w @ [metadata_path]\<rparr>;
          store = (\<lambda>b. w1\<lparr>files := (files w1)(metadata_path \<mapsto> b)\<rparr>)
      in case io e metadata_path of
           OpenOSError \<Rightarrow> (Inr False, w1)
         | OpenValueError \<Rightarrow> (Inl ValueError, w1)
         | outcome \<Rightarrow>
             (case encode_utf8 (title_line d) of
                None \<Rightarrow> (Inl UnicodeEncodeError, store [])
              | Some l1 \<Rightarrow>
                  (case encode_utf8 (image_url_line d) of
                     None \<Rightarrow>
                       (case outcome of
                          WriteOSError n \<Rightarrow> (Inr False, store (take n l1))
                        | _ \<Rightarrow> (Inl UnicodeEncodeError, store l1))
                   | Some l2 \<Rightarrow>
                       (case outcome of
                          WriteOSError n \<Rightarrow> (Inr False, store (take n (l1 @ l2)))
                        | _ \<Rightarrow> (Inr True, store (l1 @ l2))))))"

text \<open>
  \<open>get_current_comic\<close>, run in the working directory that \<open>main\<close> has changed to. The
  result is the Boolean it returns, or the exception that leaves it.
\<close>

definition get_current_comic :: "env \<Rightarrow> world \<Rightarrow> (exn + bool) \<times> world" where
  "get_current_comic e w =
     (case fetch_webpage e QWANTZ_BASE_URL of
        None \<Rightarrow> (Inr False, w)
      | Some soup \<Rightarrow>
          (case extract_comic_data soup of
             None \<Rightarrow> (Inr False, w)
           | Some d \<Rightarrow>
               (case download_image e (image_url d) of
                  None \<Rightarrow> (Inr False, w)
                | Some image_data \<Rightarrow>
                    (case save_image e w image_data (image_path_of (image_url d)) of
                       (Inl x, w1) \<Rightarrow> (Inl x, w1)
                     | (Inr saved, w1) \<Rightarrow>
                         if \<not> saved then (Inr False, w1)
                         else write_metadata e w1 d (metadata_path_of (image_url d))))))"

section \<open>update\_readme.py\<close>

subsection \<open>The project directory\<close>

text \<open>
  The project directory as the second program reads it: a directory is the list of
  its entries in the order the operating system lists them, an entry a name with a
  file or a directory. Every directory can be listed and every file read. The path
  that leads to the project root has none of the characters \<open>*\<close>, \<open>?\<close> and \<open>[\<close>.
\<close>

datatype fsnode = File bytes | Dir "(str \<times> fsnode) list"

type_synonym directory = "(str \<times> fsnode) list"

definition listdir :: "directory \<Rightarrow> str list" where
  "listdir d = map fst d"

definition isdir :: "directory \<Rightarrow> str \<Rightarrow> bool" where
  "isdir d n = (case map_of d n of Some (Dir es) \<Rightarrow> True | _ \<Rightarrow> False)"

definition subdir :: "directory \<Rightarrow> str \<Rightarrow> directory" where
  "subdir d n = (case map_of d n of Some (Dir es) \<Rightarrow> es | _ \<Rightarrow> [])"

subsection \<open>Shell patterns\<close>

text \<open>
  \<open>fnmatch\<close> as \<open>glob\<close> uses it (CPython 3.12, on POSIX, where the case of a name
  counts): \<open>translate\<close> reads a pattern into a list of items, \<open>*\<close> for any text, \<open>?\<close>
  for any character, \<open>[...]\<close> for a set of characters and anything else for itself.
  \<open>s.find(c, k)\<close> is \<open>str_find s c k\<close>.
\<close>

definition str_find :: "str \<Rightarrow> nat \<Rightarrow> nat \<Rightarrow> nat option" where
  "str_find s c k =
     (if c \<in> set (drop k s) then Some (k + length (takeWhile (\<lambda>x. x \<noteq> c) (drop k s)))
      else None)"

datatype pat_item = Star | AnyChar | Lit nat | Charset bool "(nat \<times> nat) list" | Never

text \<open>
  The closing bracket of a set, counted from the character after the opening one: a
  \<open>!\<close> in front and a \<open>]\<close> that comes first do not close it.
\<close>

definition bracket_end :: "str \<Rightarrow> nat option" where
  "bracket_end rest =
     (let j0 = (if rest \<noteq> [] \<and> hd rest = ord CHR ''!'' then 1 else 0);
          j1 = (if j0 < length rest \<and> rest ! j0 = ord CHR '']'' then j0 + 1 else j0)
      in str_find rest (ord CHR '']'') j1)"

text \<open>
  The text between the brackets is cut at the hyphens that make a range (the search
  for the next one starts two characters after the last), a hyphen at the very end
  goes back to the last chunk, and a range whose upper end is below its lower end is
  taken out together with its two ends.
\<close>

function range_chunks :: "str \<Rightarrow> nat \<Rightarrow> str list" where
  "range_chunks s k =
     (case str_find s (ord CHR ''-'') k of
        None \<Rightarrow> [s]
      | Some p \<Rightarrow> take p s # range_chunks (drop (Suc p) s) 2)"
  by pat_completeness auto
termination
proof (relation "measure (\<lambda>(s, k). length s)")
  show "wf (measure (\<lambda>(s, k). length s))" by simp
next
  fix s :: str and k p
  assume a: "str_find s (ord CHR ''-'') k = Some p"
  let ?c = "ord CHR ''-''"
  from a have m: "?c \<in> set (drop k s)"
    by (simp add: str_find_def split: if_splits)
  have "takeWhile (\<lambda>x. x \<noteq> ?c) (drop k s) \<noteq> drop k s"
    using m by (auto simp: takeWhile_eq_all_conv)
  then have "length (takeWhile (\<lambda>x. x \<noteq> ?c) (drop k s)) \<noteq> length (drop k s)"
    by (metis takeWhile_eq_take take_all order_refl)
  then have "length (takeWhile (\<lambda>x. x \<noteq> ?c) (drop k s)) < length (drop k s)"
    using length_takeWhile_le [of "\<lambda>x. x \<noteq> ?c" "drop k s"] by simp
  with a m have "p < length s"
    by (auto simp: str_find_def split: if_splits)
  then show "((drop (Suc p) s, 2), (s, k)) \<in> measure (\<lambda>(s, k). length s)"
    by simp
qed

definition close_chunks :: "str list \<Rightarrow> str list" where
  "close_chunks chunks =
     (if 2 \<le> length chunks \<and> last chunks = []
      then butlast (butlast chunks) @ [last (butlast chunks) @ py ''-'']
      else chunks)"

fun remove_empty_ranges :: "str list \<Rightarrow> str list" where
  "remove_empty_ranges [] = []"
| "remove_empty_ranges [x] = [x]"
| "remove_empty_ranges (x # y # zs) =
     (case remove_empty_ranges (y # zs) of
        [] \<Rightarrow> [x]
      | y' # zs' \<Rightarrow>
          if x \<noteq> [] \<and> y' \<noteq> [] \<and> hd y' < last x
          then (butlast x @ tl y') # zs'
          else x # y' # zs')"

text \<open>
  What \<open>translate\<close> puts between the brackets of the regular expression: backslashes
  and the hyphens inside a chunk escaped, the chunks joined by hyphens, and \<open>&\<close>,
  \<open>~\<close> and \<open>|\<close> escaped.
\<close>

definition escape_chars :: "nat list \<Rightarrow> str \<Rightarrow> str" where
  "escape_chars special s =
     concat (map (\<lambda>c. if c \<in> set special then [0x5C, c] else [c]) s)"

fun join_chunks :: "str list \<Rightarrow> str" where
  "join_chunks [] = []"
| "join_chunks [x] = x"
| "join_chunks (x # y # zs) = x @ py ''-'' @ join_chunks (y # zs)"

definition bracket_stuff :: "str \<Rightarrow> str" where
  "bracket_stuff stuff =
     escape_chars (py ''&~|'')
       (if ord CHR ''-'' \<notin> set stuff then escape_chars [0x5C] stuff
        else join_chunks
               (map (escape_chars [0x5C, ord CHR ''-''])
                  (remove_empty_ranges
                     (close_chunks
                        (range_chunks stuff (if hd stuff = ord CHR ''!'' then 2 else 1))))))"

text \<open>
  The set that the regular expression \<open>[...]\<close> denotes, as a list of ranges, from the
  text between its brackets: a backslash makes the next character stand for itself, a
  hyphen between two characters makes a range, and a range whose upper end is below
  its lower end is an error of \<open>re\<close> (\<open>None\<close>).
\<close>

fun set_item :: "str \<Rightarrow> (nat \<times> str) option" where
  "set_item [] = None"
| "set_item (c # r) =
     (if c = 0x5C then (case r of [] \<Rightarrow> None | e # r' \<Rightarrow> Some (e, r')) else Some (c, r))"

function parse_set :: "str \<Rightarrow> (nat \<times> nat) list option" where
  "parse_set s =
     (case set_item s of
        None \<Rightarrow> (if s = [] then Some [] else None)
      | Some (lo, r) \<Rightarrow>
          (case r of
             [] \<Rightarrow> Some [(lo, lo)]
           | d # r' \<Rightarrow>
               if d = ord CHR ''-'' then
                 (case set_item r' of
                    None \<Rightarrow> (if r' = [] then Some [(lo, lo), (d, d)] else None)
                  | Some (hi, r'') \<Rightarrow>
                      if hi < lo then None
                      else map_option (Cons (lo, hi)) (parse_set r''))
               else map_option (Cons (lo, lo)) (parse_set r)))"
  by pat_completeness auto
termination
proof (relation "measure length")
  show "wf (measure length)" by simp
next
  fix s :: str and x2 lo r d r' x2a hi r''
  assume "set_item s = Some x2" "(lo, r) = x2" "r = d # r'" "d = ord CHR ''-''"
    "set_item r' = Some x2a" "(hi, r'') = x2a" "\<not> hi < lo"
  then show "(r'', s) \<in> measure length"
    by (cases s; cases r') (auto split: if_splits list.splits)
next
  fix s :: str and x2 lo r d r'
  assume "set_item s = Some x2" "(lo, r) = x2" "r = d # r'" "d \<noteq> ord CHR ''-''"
  then show "(r, s) \<in> measure length"
    by (cases s) (auto split: if_splits list.splits)
qed

definition charset :: "str \<Rightarrow> pat_item option" where
  "charset stuff =
     (let s = bracket_stuff stuff
      in if s = [] then Some Never
         else if s = py ''!'' then Some AnyChar
         else if hd s = ord CHR ''!'' then map_option (Charset True) (parse_set (tl s))
         else map_option (Charset False) (parse_set s))"

function translate :: "str \<Rightarrow> pat_item list option" where
  "translate [] = Some []"
| "translate (c # rest) =
     (if c = ord CHR ''*'' then map_option (Cons Star) (translate rest)
      else if c = ord CHR ''?'' then map_option (Cons AnyChar) (translate rest)
      else if c = ord CHR ''['' then
        (case bracket_end rest of
           None \<Rightarrow> map_option (Cons (Lit c)) (translate rest)
         | Some j \<Rightarrow>
             (case charset (take j rest) of
                None \<Rightarrow> None
              | Some item \<Rightarrow> map_option (Cons item) (translate (drop (Suc j) rest))))
      else map_option (Cons (Lit c)) (translate rest))"
  by pat_completeness auto
termination
  by (relation "measure length") auto

text \<open>A name matches when the items account for all of it.\<close>

fun item_matches :: "pat_item \<Rightarrow> nat \<Rightarrow> bool" where
  "item_matches Star c = True"
| "item_matches AnyChar c = True"
| "item_matches (Lit l) c = (c = l)"
| "item_matches (Charset negated ranges) c =
     (negated \<noteq> (\<exists>(lo, hi) \<in> set ranges. lo \<le> c \<and> c \<le> hi))"
| "item_matches Never c = False"

fun match_items :: "pat_item list \<Rightarrow> str \<Rightarrow> bool" where
  "match_items [] s = (s = [])"
| "match_items (Star # ps) [] = match_items ps []"
| "match_items (Star # ps) (c # s) = (match_items ps (c # s) \<or> match_items (Star # ps) s)"
| "match_items (p # ps) [] = False"
| "match_items (p # ps) (c # s) = (item_matches p c \<and> match_items ps s)"

definition fnmatch_filter :: "str list \<Rightarrow> str \<Rightarrow> exn + str list" where
  "fnmatch_filter names pat =
     (case translate pat of
        None \<Rightarrow> Inl ReError
      | Some items \<Rightarrow> Inr (filter (match_items items) names))"

subsection \<open>glob\<close>

text \<open>
  \<open>glob\<close> reads the whole path it is given as a pattern. \<open>has_magic\<close> says whether a
  text has one of \<open>*\<close>, \<open>?\<close> and \<open>[\<close>. \<open>glob1 d pattern dironly\<close> is the names of \<open>d\<close>
  (its directories only, with \<open>dironly\<close>) that match \<open>pattern\<close>; a name that starts
  with a dot is hidden from a pattern that does not.
\<close>

definition has_magic :: "str \<Rightarrow> bool" where
  "has_magic s = (\<exists>c \<in> set s. c \<in> set (py ''*?[''))"

definition glob1 :: "directory \<Rightarrow> str \<Rightarrow> bool \<Rightarrow> exn + str list" where
  "glob1 d pattern dironly =
     (let names = filter (\<lambda>n. if dironly then isdir d n else True) (listdir d);
          shown = (if startswith pattern (py ''.'') then names
                   else filter (\<lambda>n. \<not> startswith n (py ''.'')) names)
      in fnmatch_filter shown pattern)"

text \<open>
  \<open>glob.glob(os.path.join(most_recent_dir, '*.png'))\<close>, each path as the name of its
  directory in \<open>data\<close> and the name of the file. A directory name without one of the
  three characters is taken as it is. One with them is a pattern: \<open>glob\<close> then looks
  into every directory of \<open>data\<close> whose name matches it, in the order of the listing.
\<close>

definition glob_in :: "directory \<Rightarrow> str \<Rightarrow> exn + (str \<times> str) list" where
  "glob_in data_dir d =
     (case glob1 (subdir data_dir d) (py ''*.png'') False of
        Inl x \<Rightarrow> Inl x
      | Inr names \<Rightarrow> Inr (map (Pair d) names))"

fun glob_all :: "directory \<Rightarrow> str list \<Rightarrow> exn + (str \<times> str) list" where
  "glob_all data_dir [] = Inr []"
| "glob_all data_dir (d # ds) =
     (case glob_in data_dir d of
        Inl x \<Rightarrow> Inl x
      | Inr found \<Rightarrow>
          (case glob_all data_dir ds of
             Inl x \<Rightarrow> Inl x
           | Inr others \<Rightarrow> Inr (found @ others)))"

definition glob_png :: "directory \<Rightarrow> str \<Rightarrow> exn + (str \<times> str) list" where
  "glob_png data_dir date =
     (if has_magic date
      then (case glob1 data_dir date True of
              Inl x \<Rightarrow> Inl x
            | Inr dirs \<Rightarrow> glob_all data_dir dirs)
      else glob_in data_dir date)"

subsection \<open>The latest entry and the summary\<close>

text \<open>\<open>s.rfind(c)\<close> for one character, and \<open>Path(p).stem\<close> on the last component.\<close>

definition rfind :: "str \<Rightarrow> nat \<Rightarrow> int" where
  "rfind s c =
     (if c \<in> set s then int (length s) - 1 - int (length (takeWhile (\<lambda>x. x \<noteq> c) (rev s)))
      else - 1)"

definition path_stem :: "str \<Rightarrow> str" where
  "path_stem name =
     (let i = rfind name (ord CHR ''.'')
      in if 0 < i \<and> i < int (length name) - 1 then take (nat i) name else name)"

text \<open>
  Lines 48 to 51: the loop over the lines of the metadata file; \<open>None\<close> when it ends
  without a \<open>break\<close>.
\<close>

fun scan_title :: "str list \<Rightarrow> str option" where
  "scan_title [] = None"
| "scan_title (line # rest) =
     (if startswith line (py ''Title:'')
      then Some (strip (str_replace (py ''Title:'') [] line))
      else scan_title rest)"

text \<open>
  The loop on a file that arrives in the pieces \<open>chunks\<close>, after the bytes \<open>seen\<close>. A
  line is handed to the loop as soon as the text decoded so far has it whole, so the
  loop ends on the first line that starts with \<open>Title:\<close> without reading on; rereading
  the lines before it changes nothing, since none of them starts with \<open>Title:\<close>. The
  end of the file ends the last line.
\<close>

fun read_title :: "bytes list \<Rightarrow> bytes \<Rightarrow> exn + str option" where
  "read_title [] seen =
     (case decode_utf8 seen of
        None \<Rightarrow> Inl UnicodeDecodeError
      | Some text \<Rightarrow> Inr (scan_title (iter_lines (universal_newlines text))))"
| "read_title (c # chunks) seen =
     (case decode_utf8_so_far (seen @ c) of
        None \<Rightarrow> Inl UnicodeDecodeError
      | Some text \<Rightarrow>
          (case scan_title (complete_lines (universal_newlines (held_back text))) of
             Some t \<Rightarrow> Inr (Some t)
           | None \<Rightarrow> read_title chunks (seen @ c)))"

text \<open>
  Lines 43 to 51: the title read from the metadata file \<open>name\<close> of directory \<open>d\<close>.
  \<open>os.path.exists\<close> is true of a directory too, which \<open>open\<close> then refuses.
\<close>

definition read_metadata_title :: "nat list \<Rightarrow> directory \<Rightarrow> str \<Rightarrow> exn + str" where
  "read_metadata_title reads d name =
     (case map_of d name of
        None \<Rightarrow> Inr (py ''No title available'')
      | Some (Dir es) \<Rightarrow> Inl IsADirectoryError
      | Some (File content) \<Rightarrow>
          (case read_title (split_reads reads content) [] of
             Inl x \<Rightarrow> Inl x
           | Inr None \<Rightarrow> Inr (py ''No title available'')
           | Inr (Some t) \<Rightarrow> Inr t))"

text \<open>
  Lines 19 to 21: the names of the subdirectories of the data directory, sorted in
  reverse order. The sort compares strings by code point; equal names cannot be told
  apart, so reversing the ascending sort gives what \<open>reverse=True\<close> gives.
\<close>

definition date_dirs :: "directory \<Rightarrow> str list" where
  "date_dirs data_dir = rev (sort (filter (isdir data_dir) (listdir data_dir)))"

text \<open>
  \<open>get_most_recent_comic\<close> on the entries of the project root, with the reads of the
  metadata file as \<open>reads\<close>. \<open>os.listdir\<close> raises \<open>NotADirectoryError\<close> when \<open>data\<close> is a
  file. The first path that \<open>glob\<close> returns is the image; the metadata file is looked
  for in the most recent directory; the image path relative to the project root is
  \<open>data/<directory>/<name>\<close>. The messages it prints are not modelled.
\<close>

definition get_most_recent_comic ::
  "nat list \<Rightarrow> directory \<Rightarrow> exn + (str \<times> str \<times> str \<times> str) option" where
  "get_most_recent_comic reads project_root =
     (case map_of project_root (py ''data'') of
        None \<Rightarrow> Inr None
      | Some (File content) \<Rightarrow> Inl NotADirectoryError
      | Some (Dir data_dir) \<Rightarrow>
          if date_dirs data_dir = [] then Inr None
          else
            (let most_recent_date = hd (date_dirs data_dir);
                 most_recent_dir = subdir data_dir most_recent_date
             in case glob_png data_dir most_recent_date of
                  Inl x \<Rightarrow> Inl x
                | Inr png_files \<Rightarrow>
                    if png_files = [] then Inr None
                    else
                      (let image_dir = fst (hd png_files);
                           image_name = snd (hd png_files);
                           comic_filename = path_stem image_name
                       in case read_metadata_title reads most_recent_dir
                                 (comic_filename @ py ''_metadata.txt'') of
                            Inl x \<Rightarrow> Inl x
                          | Inr metadata_title \<Rightarrow>
                              Inr (Some (most_recent_date, comic_filename,
                                         str_replace (py '' '') (py ''%20'')
                                           (py ''data/'' @ image_dir @ py ''/''
                                            @ image_name),
                                         metadata_title)))))"

text \<open>The template of lines 78 to 89.\<close>

definition readme_content :: "str \<Rightarrow> str \<Rightarrow> str \<Rightarrow> str \<Rightarrow> str" where
  "readme_content date filename image_path metadata_title =
     py ''# Dinosaur Comics Daily'' @ [LF, LF]
     @ py ''#### '' @ date @ [LF, LF]
     @ py ''!['' @ filename @ py '']('' @ image_path @ py '')'' @ [LF, LF]
     @ py ''**'' @ metadata_title @ py ''**'' @ [LF, LF]
     @ py ''---'' @ [LF, LF]
     @ py ''*This README is automatically updated with the latest Dinosaur Comics comic.*''
     @ [LF]"

text \<open>
  \<open>update_readme\<close>: \<open>outcome\<close> says how the one write to \<open>README.md\<close> goes, should it
  happen, and \<open>reads\<close> how the metadata file is read. Nothing here catches an
  exception.
\<close>

definition update_readme ::
  "nat list \<Rightarrow> io_outcome \<Rightarrow> directory \<Rightarrow> (exn + unit) \<times> directory" where
  "update_readme reads outcome project_root =
     (case get_most_recent_comic reads project_root of
        Inl x \<Rightarrow> (Inl x, project_root)
      | Inr None \<Rightarrow> (Inr (), project_root)
      | Inr (Some (date, filename, image_path, metadata_title)) \<Rightarrow>
          (let store = (\<lambda>b. AList.update (py ''README.md'') (File b) project_root)
           in if isdir project_root (py ''README.md'')
              then (Inl IsADirectoryError, project_root)
              else
                (case outcome of
                   OpenOSError \<Rightarrow> (Inl OSError, project_root)
                 | OpenValueError \<Rightarrow> (Inl ValueError, project_root)
                 | _ \<Rightarrow>
                     (case encode_utf8
                             (readme_content date filename image_path metadata_title) of
                        None \<Rightarrow> (Inl UnicodeEncodeError, store [])
                      | Some b \<Rightarrow>
                          (case outcome of
                             WriteOSError n \<Rightarrow> (Inl OSError, store (take n b))
                           | _ \<Rightarrow> (Inr (), store b))))))"

section \<open>The specification's wording\<close>

text \<open>
  The extension as the specification words it: the substring after the last dot in
  the URL's last path segment, with the query string stripped (split on \<open>?\<close>, first
  part kept). The last path segment is what follows the last \<open>/\<close>, as in line 168
  of scraper.py.
\<close>

definition extension_of_last_segment :: "str \<Rightarrow> str" where
  "extension_of_last_segment url =
     hd (str_split (ord CHR ''?'')
           (last (str_split (ord CHR ''.'') (last (str_split (ord CHR ''/'') url)))))"

text \<open>
  The title as the specification words it: the remainder of the line after the
  \<open>Title:\<close> marker, trimmed.
\<close>

definition title_after_marker :: "str \<Rightarrow> str" where
  "title_after_marker line = strip (drop (length (py ''Title:'')) line)"

section \<open>Example inputs\<close>

text \<open>A page around one node, and a comic image tag with given attributes.\<close>

definition img_tag :: "(str \<rightharpoonup> str) \<Rightarrow> node" where
  "img_tag at = Tag (py ''img'') [py ''comic''] at []"

definition page_with :: "node \<Rightarrow> node" where
  "page_with n =
     Tag (py ''[document]'') [] Map.empty
       [Tag (py ''html'') [] Map.empty
          [Tag (py ''head'') [] Map.empty [Tag (py ''title'') [] Map.empty [NavigableString (py ''Dinosaur Comics!'')]],
           Tag (py ''body'') [] Map.empty
             [Tag (py ''img'') [py ''logo''] [py ''src'' \<mapsto> py ''logo.png''] [], n]]]"

text \<open>
  A page with two comic images, the first inside a \<open>div\<close> and with a second class,
  after a \<open>div\<close> of class \<open>comic\<close> and an image of another class.
\<close>

definition busy_page :: "(str \<rightharpoonup> str) \<Rightarrow> (str \<rightharpoonup> str) \<Rightarrow> node" where
  "busy_page at1 at2 =
     Tag (py ''[document]'') [] Map.empty
       [Tag (py ''html'') [] Map.empty
          [Tag (py ''body'') [] Map.empty
             [Tag (py ''div'') [py ''comic''] Map.empty [NavigableString (py ''about'')],
              Tag (py ''img'') [py ''logo''] [py ''src'' \<mapsto> py ''logo.png''] [],
              Tag (py ''div'') [py ''strip''] Map.empty
                [Tag (py ''img'') [py ''wide'', py ''comic''] at1 []],
              Tag (py ''img'') [py ''comic''] at2 []]]]"

text \<open>
  An environment whose page shows a comic with the given \<open>src\<close> and the title \<open>T\<close>,
  whose image has four bytes, and whose writes go as \<open>outcome\<close> says; and an empty
  working directory.
\<close>

definition example_png :: bytes where
  "example_png = [0x89, 0x50, 0x4E, 0x47]"

definition example_env :: "str \<Rightarrow> (str \<Rightarrow> io_outcome) \<Rightarrow> env" where
  "example_env src outcome =
     \<lparr>web_page = (\<lambda>url. if url = QWANTZ_BASE_URL
                          then Some (page_with (img_tag [py ''src'' \<mapsto> src, py ''title'' \<mapsto> py ''T'']))
                          else None),
      web_content = (\<lambda>url. if url = QWANTZ_BASE_URL @ src then Some example_png else None),
      io = outcome\<rparr>"

text \<open>
  An environment whose page shows the comic \<open>comics/foo.png\<close> with a given title,
  and whose writes all go well.
\<close>

definition titled_env :: "str \<Rightarrow> env" where
  "titled_env t =
     \<lparr>web_page = (\<lambda>url. if url = QWANTZ_BASE_URL
                          then Some (page_with (img_tag [py ''src'' \<mapsto> py ''comics/foo.png'',
                                                         py ''title'' \<mapsto> t]))
                          else None),
      web_content = (\<lambda>url. if url = QWANTZ_BASE_URL @ py ''comics/foo.png''
                             then Some example_png else None),
      io = (\<lambda>p. IoOk)\<rparr>"

definition empty_world :: world where
  "empty_world = \<lparr>files = Map.empty, opened = []\<rparr>"

text \<open>
  A project directory with the two dated directories \<open>2024-01-01\<close> and \<open>2024-01-02\<close>,
  one image in each. A project directory with one dated directory that holds the
  image \<open>foo.png\<close> and a metadata file of the given bytes.
\<close>

definition example_archive :: directory where
  "example_archive =
     [(py ''README.md'', File (pyb ''# old'')),
      (py ''data'',
       Dir [(py ''2024-01-01'', Dir [(py ''first.png'', File example_png)]),
            (py ''2024-01-02'', Dir [(py ''second.png'', File example_png)])]),
      (py ''src'', Dir [])]"

definition archive_with_metadata :: "bytes \<Rightarrow> directory" where
  "archive_with_metadata m =
     [(py ''data'',
       Dir [(py ''2024-01-02'',
             Dir [(py ''foo.png'', File example_png), (py ''foo_metadata.txt'', File m)])])]"

text \<open>
  A project directory whose data directory holds \<open>2024-01-02\<close> with the image
  \<open>a.png\<close>, and \<open>[2]024-01-02\<close> with the one file \<open>notes.txt\<close>.
\<close>

definition bracket_archive :: directory where
  "bracket_archive =
     [(py ''data'',
       Dir [(py ''2024-01-02'', Dir [(py ''a.png'', File example_png)]),
            (py ''[2]024-01-02'', Dir [(py ''notes.txt'', File [])])])]"

text \<open>
  The metadata file that the scraper writes for the title \<open>A Title: B\<close> and the image
  \<open>comics/foo.png\<close>.
\<close>

definition marker_metadata :: bytes where
  "marker_metadata =
     pyb (''Title: A Title: B'' @ [CHR 0x0A]
          @ ''Image URL: https://www.qwantz.com/comics/foo.png'' @ [CHR 0x0A])"

section \<open>Properties of the sanitizer\<close>

lemma INVALID_FILENAME_CHARS_codes:
  "INVALID_FILENAME_CHARS = [47, 92, 63, 37, 42, 58, 124, 34, 60, 62, 46]"
  by (simp add: INVALID_FILENAME_CHARS_def py_def ord_def)

text \<open>
  C4. For every string \<open>x\<close>, \<open>sanitize_filename x\<close> contains none of the forbidden
  characters \<open>/ \ ? % * : | " < > .\<close>; a string that contains none of them is returned as
  it is; and sanitizing twice is the same as sanitizing once. The function is a total
  function of its argument alone.
\<close>

theorem sanitize_filename_spec:
  "(\<forall>c \<in> set (sanitize_filename x). c \<notin> set INVALID_FILENAME_CHARS)
   \<and> (set x \<inter> set INVALID_FILENAME_CHARS = {} \<longrightarrow> sanitize_filename x = x)
   \<and> sanitize_filename (sanitize_filename x) = sanitize_filename x
   \<and> set INVALID_FILENAME_CHARS =
       ord ` {CHR ''/'', CHR 0x5C, CHR ''?'', CHR ''%'', CHR ''*'', CHR '':'',
                  CHR ''|'', CHR 0x22, CHR ''<'', CHR ''>'', CHR ''.''}"
proof -
  have a: "\<forall>c \<in> set (sanitize_filename x). c \<notin> set INVALID_FILENAME_CHARS"
    by (simp add: sanitize_filename_def)
  have b: "set x \<inter> set INVALID_FILENAME_CHARS = {} \<longrightarrow> sanitize_filename x = x"
    unfolding sanitize_filename_def by (auto intro: filter_True)
  have c: "sanitize_filename (sanitize_filename x) = sanitize_filename x"
    by (simp add: sanitize_filename_def)
  have d: "set INVALID_FILENAME_CHARS =
       ord ` {CHR ''/'', CHR 0x5C, CHR ''?'', CHR ''%'', CHR ''*'', CHR '':'',
                  CHR ''|'', CHR 0x22, CHR ''<'', CHR ''>'', CHR ''.''}"
    by (simp add: INVALID_FILENAME_CHARS_def py_def ord_def)
  from a b c d show ?thesis by blast
qed

theorem sanitize_filename_spec_witness:
  "set (py ''comic2-02'') \<inter> set INVALID_FILENAME_CHARS = {}
   \<and> sanitize_filename (py ''comic2-02'') = py ''comic2-02''
   \<and> set (sanitize_filename (py ''a/b.c:d'')) \<inter> set INVALID_FILENAME_CHARS = {}
   \<and> sanitize_filename (py ''a/b.c:d'') = py ''abcd''
   \<and> sanitize_filename (sanitize_filename (py ''a/b.c:d'')) = py ''abcd''"
proof -
  have h: "set (py ''comic2-02'') \<inter> set INVALID_FILENAME_CHARS = {}"
    by (simp add: INVALID_FILENAME_CHARS_codes py_def ord_def)
  have e: "sanitize_filename (py ''a/b.c:d'') = py ''abcd''"
    by (simp add: sanitize_filename_def INVALID_FILENAME_CHARS_codes py_def ord_def)
  from h e sanitize_filename_spec [of "py ''comic2-02''"]
    sanitize_filename_spec [of "py ''a/b.c:d''"]
  show ?thesis by auto
qed

section \<open>Splitting strings\<close>

lemma str_split_nonempty: "str_split sep s \<noteq> []"
  by (induction s) (auto split: list.splits)

lemma str_split_absent: "sep \<notin> set s \<Longrightarrow> str_split sep s = [s]"
  by (induction s) auto

lemma str_split_length: "sep \<in> set s \<Longrightarrow> 2 \<le> length (str_split sep s)"
proof (induction s)
  case Nil
  then show ?case by simp
next
  case (Cons c cs)
  show ?case
  proof (cases "c = sep")
    case True
    then show ?thesis using str_split_nonempty [of sep cs]
      by (cases "str_split sep cs") auto
  next
    case False
    with Cons show ?thesis by (auto split: list.splits)
  qed
qed

lemma last_str_split: "sep \<notin> set b \<Longrightarrow> last (str_split sep (a @ sep # b)) = b"
proof (induction a)
  case Nil
  then show ?case by (simp add: str_split_absent)
next
  case (Cons c a)
  have "2 \<le> length (str_split sep (a @ sep # b))"
    by (rule str_split_length) simp
  then obtain w v ws where "str_split sep (a @ sep # b) = w # v # ws"
    by (cases "str_split sep (a @ sep # b)" rule: list.exhaust)
       (auto simp: Suc_le_eq neq_Nil_conv)
  with Cons show ?case by auto
qed

lemma hd_str_split: "hd (str_split sep s) = takeWhile (\<lambda>c. c \<noteq> sep) s"
  by (induction s) (auto split: list.splits simp: str_split_nonempty)

lemma last_str_split_suffix:
  assumes "sep \<in> set t"
  shows "last (str_split sep (a @ t)) = last (str_split sep t)"
proof -
  from assms obtain u v where t: "t = u @ sep # v" and v: "sep \<notin> set v"
    by (auto dest: split_list_last)
  have "last (str_split sep ((a @ u) @ sep # v)) = v"
    using v by (rule last_str_split)
  moreover have "last (str_split sep (u @ sep # v)) = v"
    using v by (rule last_str_split)
  ultimately show ?thesis by (simp add: t)
qed

lemma str_split_last_segment:
  "\<exists>a. s = a @ last (str_split sep s)"
proof (cases "sep \<in> set s")
  case True
  then obtain u v where t: "s = u @ sep # v" and v: "sep \<notin> set v"
    by (auto dest: split_list_last)
  have "last (str_split sep (u @ sep # v)) = v"
    using v by (rule last_str_split)
  then have "s = (u @ [sep]) @ last (str_split sep s)" by (simp add: t)
  then show ?thesis by blast
next
  case False
  then show ?thesis by (simp add: str_split_absent)
qed

section \<open>Encoding and decoding\<close>

lemma utf8_decode_2:
  "2 \<le> q \<Longrightarrow> q < 32 \<Longrightarrow> m < 64 \<Longrightarrow>
   utf8_decode f ((0xC0 + q) # (0x80 + m) # r)
     = map_option (Cons (q * 64 + m)) (utf8_decode f r)"
  by (simp add: continuation_def)

lemma utf8_decode_3:
  "q < 16 \<Longrightarrow> m1 < 64 \<Longrightarrow> m2 < 64 \<Longrightarrow> 0x800 \<le> q * 4096 + m1 * 64 + m2 \<Longrightarrow>
   scalar_value (q * 4096 + m1 * 64 + m2) \<Longrightarrow>
   utf8_decode f ((0xE0 + q) # (0x80 + m1) # (0x80 + m2) # r)
     = map_option (Cons (q * 4096 + m1 * 64 + m2)) (utf8_decode f r)"
  by (simp add: continuation_def)

lemma utf8_decode_4:
  "q < 5 \<Longrightarrow> m1 < 64 \<Longrightarrow> m2 < 64 \<Longrightarrow> m3 < 64 \<Longrightarrow>
   0x10000 \<le> q * 262144 + m1 * 4096 + m2 * 64 + m3 \<Longrightarrow>
   q * 262144 + m1 * 4096 + m2 * 64 + m3 < 0x110000 \<Longrightarrow>
   utf8_decode f ((0xF0 + q) # (0x80 + m1) # (0x80 + m2) # (0x80 + m3) # r)
     = map_option (Cons (q * 262144 + m1 * 4096 + m2 * 64 + m3)) (utf8_decode f r)"
  by (simp add: continuation_def)

lemma split64: "(c::nat) = c div 64 * 64 + c mod 64"
  by simp

lemma split4096: "(c::nat) = c div 4096 * 4096 + c div 64 mod 64 * 64 + c mod 64"
proof -
  have "c div 64 = c div 64 div 64 * 64 + c div 64 mod 64" by simp
  moreover have "c div 64 div 64 = c div 4096" by (simp add: div_mult2_eq [symmetric])
  ultimately have "c div 64 * 64 = c div 4096 * 4096 + c div 64 mod 64 * 64" by simp
  then show ?thesis using split64 [of c] by simp
qed

lemma split262144:
  "(c::nat) = c div 262144 * 262144 + c div 4096 mod 64 * 4096 + c div 64 mod 64 * 64 + c mod 64"
proof -
  have "c div 4096 = c div 4096 div 64 * 64 + c div 4096 mod 64" by simp
  moreover have "c div 4096 div 64 = c div 262144" by (simp add: div_mult2_eq [symmetric])
  ultimately have "c div 4096 * 4096 = c div 262144 * 262144 + c div 4096 mod 64 * 4096" by simp
  then show ?thesis using split4096 [of c] by simp
qed

lemma utf8_decode_char:
  assumes "scalar_value c"
  shows "utf8_decode f (utf8_char c @ r) = map_option (Cons c) (utf8_decode f r)"
proof -
  have c1: "c < 0x80 \<Longrightarrow> ?thesis"
    by (simp add: utf8_char_def)
  have c2: ?thesis if "0x80 \<le> c" "c < 0x800"
  proof -
    have "2 \<le> c div 64" "c div 64 < 32" "c mod 64 < 64" using that by simp_all
    from utf8_decode_2 [OF this, of f r] that show ?thesis
      by (simp add: utf8_char_def)
  qed
  have c3: ?thesis if "0x800 \<le> c" "c < 0x10000"
  proof -
    have "c div 4096 < 16" "c div 64 mod 64 < 64" "c mod 64 < 64" using that by simp_all
    from utf8_decode_3 [OF this, of f r] that assms split4096 [of c] show ?thesis
      by (simp add: utf8_char_def)
  qed
  have c4: ?thesis if "0x10000 \<le> c"
  proof -
    have lt: "c < 0x110000" using assms that by (simp add: scalar_value_def)
    then have "c div 262144 < 5" "c div 4096 mod 64 < 64" "c div 64 mod 64 < 64" "c mod 64 < 64"
      by simp_all
    from utf8_decode_4 [OF this, of f r] that lt split262144 [of c] show ?thesis
      by (simp add: utf8_char_def)
  qed
  from c1 c2 c3 c4 show ?thesis by linarith
qed

lemma utf8_decode_encode:
  "\<forall>c \<in> set s. scalar_value c \<Longrightarrow> utf8_decode f (concat (map utf8_char s)) = Some s"
  by (induction s) (simp_all add: utf8_decode_char)

lemma utf8_char_byte: "scalar_value c \<Longrightarrow> b \<in> set (utf8_char c) \<Longrightarrow> b < 256"
  unfolding utf8_char_def scalar_value_def
  by (auto split: if_splits)

lemma unat_of_nat_bytes:
  "\<forall>b \<in> set bs. b < 256 \<Longrightarrow> map unat (map of_nat bs :: bytes) = bs"
  by (induction bs) (simp_all add: unat_of_nat)

lemma decode_utf8_encode_utf8:
  "encode_utf8 s = Some m \<Longrightarrow> decode_utf8 m = Some s"
proof -
  assume a: "encode_utf8 s = Some m"
  then have sv: "\<forall>c \<in> set s. scalar_value c"
    by (simp add: encode_utf8_def split: if_splits)
  then have "\<forall>b \<in> set (concat (map utf8_char s)). b < 256"
    by (auto dest: utf8_char_byte)
  then have "map unat (map of_nat (concat (map utf8_char s)) :: bytes) = concat (map utf8_char s)"
    by (rule unat_of_nat_bytes)
  moreover from a sv have "m = map of_nat (concat (map utf8_char s))"
    by (simp add: encode_utf8_def)
  ultimately show ?thesis using sv
    by (simp add: decode_utf8_def utf8_decode_encode)
qed

lemma encode_utf8_append:
  "encode_utf8 a = Some x \<Longrightarrow> encode_utf8 b = Some y \<Longrightarrow> encode_utf8 (a @ b) = Some (x @ y)"
  by (auto simp: encode_utf8_def split: if_splits)


subsection \<open>Decoding piece by piece\<close>

text \<open>
  The bytes of a file that decodes as a whole decode, cut anywhere, to the beginning
  of its text; and the pieces of \<open>split_reads\<close> make up the file.
\<close>

lemma second_byte_of_3:
  assumes "0xE0 \<le> b" and "b < 0xF0" and "continuation b1" and "continuation b2"
    and "0x800 \<le> (b - 0xE0) * 0x1000 + (b1 - 0x80) * 0x40 + (b2 - 0x80)"
    and "scalar_value ((b - 0xE0) * 0x1000 + (b1 - 0x80) * 0x40 + (b2 - 0x80))"
  shows "second_byte b b1"
  using assms unfolding second_byte_def continuation_def scalar_value_def
  by auto

lemma second_byte_of_4:
  assumes "0xF0 \<le> b" and "b < 0xF5" and "continuation b1" and "continuation b2"
    and "continuation b3"
    and "0x10000 \<le> (b - 0xF0) * 0x40000 + (b1 - 0x80) * 0x1000 + (b2 - 0x80) * 0x40 + (b3 - 0x80)"
    and "(b - 0xF0) * 0x40000 + (b1 - 0x80) * 0x1000 + (b2 - 0x80) * 0x40 + (b3 - 0x80) < 0x110000"
  shows "second_byte b b1"
  using assms unfolding second_byte_def continuation_def
  by auto

lemma decoded_step:
  assumes "\<exists>n. utf8_decode False (take j r) = Some (take n t)"
  shows "\<exists>n. map_option (Cons c) (utf8_decode False (take j r)) = Some (take n (c # t))"
proof -
  from assms obtain n where "utf8_decode False (take j r) = Some (take n t)" by blast
  then have "map_option (Cons c) (utf8_decode False (take j r)) = Some (take (Suc n) (c # t))"
    by simp
  then show ?thesis by blast
qed

lemma decoded_nothing: "\<exists>n. Some [] = Some (take n t)"
  by (intro exI [of _ 0]) simp

lemma utf8_decode_prefix:
  "utf8_decode True bs = Some whole \<Longrightarrow> \<exists>n. utf8_decode False (take k bs) = Some (take n whole)"
proof (induction bs arbitrary: k whole rule: length_induct)
  case (1 bs)
  note IH = 1(1) [rule_format] and d = 1(2)
  show ?case
  proof (cases bs)
    case Nil
    then show ?thesis using decoded_nothing [of whole] by simp
  next
    case (Cons b r)
    consider (ascii) "b < 0x80" | (two) "0xC2 \<le> b" "b < 0xE0" | (three) "0xE0 \<le> b" "b < 0xF0"
      | (four) "0xF0 \<le> b" "b < 0xF5" | (bad) "0x80 \<le> b \<and> b < 0xC2 \<or> 0xF5 \<le> b"
      by linarith
    then show ?thesis
    proof cases
      case ascii
      with d Cons obtain t where t: "utf8_decode True r = Some t" "whole = b # t"
        by auto
      show ?thesis
      proof (cases k)
        case 0
        then show ?thesis using decoded_nothing [of whole] by simp
      next
        case (Suc j)
        have "\<exists>n. utf8_decode False (take j r) = Some (take n t)"
          using IH [of r t j] t(1) Cons by simp
        from decoded_step [OF this, of b] show ?thesis
          using ascii by (simp add: Cons Suc t(2))
      qed
    next
      case two
      from d Cons two obtain b1 r1 where r: "r = b1 # r1"
        by (cases r) (auto simp: cut_short_def)
      from d Cons two r have c1: "continuation b1"
        by (auto split: if_splits)
      with d Cons two r obtain t where
        t: "utf8_decode True r1 = Some t" "whole = ((b - 0xC0) * 0x40 + (b1 - 0x80)) # t"
        by auto
      have s: "\<exists>n. utf8_decode False (take j r1) = Some (take n t)" for j
        using IH [of r1 t j] t(1) Cons r by simp
      show ?thesis
      proof (cases k)
        case 0
        then show ?thesis using decoded_nothing [of whole] by simp
      next
        case k1: (Suc j)
        show ?thesis
        proof (cases j)
          case 0
          then show ?thesis
            using two decoded_nothing [of whole] by (simp add: Cons r k1 cut_short_def)
        next
          case (Suc j1)
          from decoded_step [OF s [of j1], of "(b - 0xC0) * 0x40 + (b1 - 0x80)"] show ?thesis
            using two c1 by (simp add: Cons r k1 Suc t(2))
        qed
      qed
    next
      case three
      from d Cons three obtain b1 b2 r2 where r: "r = b1 # b2 # r2"
        by (cases r; cases "tl r") (auto simp: cut_short_def split: if_splits)
      let ?c = "(b - 0xE0) * 0x1000 + (b1 - 0x80) * 0x40 + (b2 - 0x80)"
      from d Cons three r have c: "continuation b1" "continuation b2" "0x800 \<le> ?c"
        "scalar_value ?c"
        by (auto simp: Let_def split: if_splits)
      with d Cons three r obtain t where t: "utf8_decode True r2 = Some t" "whole = ?c # t"
        by (auto simp: Let_def)
      have s: "\<exists>n. utf8_decode False (take j r2) = Some (take n t)" for j
        using IH [of r2 t j] t(1) Cons r by simp
      have sb: "second_byte b b1"
        using three c by (intro second_byte_of_3)
      show ?thesis
      proof (cases k)
        case 0
        then show ?thesis using decoded_nothing [of whole] by simp
      next
        case k1: (Suc j)
        show ?thesis
        proof (cases j)
          case 0
          then show ?thesis
            using three decoded_nothing [of whole] by (simp add: Cons r k1 cut_short_def)
        next
          case k2: (Suc j1)
          show ?thesis
          proof (cases j1)
            case 0
            then show ?thesis
              using three sb decoded_nothing [of whole] by (simp add: Cons r k1 k2 cut_short_def)
          next
            case (Suc j2)
            from decoded_step [OF s [of j2], of ?c] show ?thesis
              using three c by (simp add: Cons r k1 k2 Suc t(2) Let_def)
          qed
        qed
      qed
    next
      case four
      from d Cons four obtain b1 b2 b3 r3 where r: "r = b1 # b2 # b3 # r3"
        by (cases r; cases "tl r"; cases "tl (tl r)") (auto simp: cut_short_def split: if_splits)
      let ?c = "(b - 0xF0) * 0x40000 + (b1 - 0x80) * 0x1000 + (b2 - 0x80) * 0x40 + (b3 - 0x80)"
      from d Cons four r have c: "continuation b1" "continuation b2" "continuation b3"
        "0x10000 \<le> ?c" "?c < 0x110000"
        by (auto simp: Let_def split: if_splits)
      with d Cons four r obtain t where t: "utf8_decode True r3 = Some t" "whole = ?c # t"
        by (auto simp: Let_def)
      have s: "\<exists>n. utf8_decode False (take j r3) = Some (take n t)" for j
        using IH [of r3 t j] t(1) Cons r by simp
      have sb: "second_byte b b1"
        using four c by (intro second_byte_of_4)
      show ?thesis
      proof (cases k)
        case 0
        then show ?thesis using decoded_nothing [of whole] by simp
      next
        case k1: (Suc j)
        show ?thesis
        proof (cases j)
          case 0
          then show ?thesis
            using four decoded_nothing [of whole] by (simp add: Cons r k1 cut_short_def)
        next
          case k2: (Suc j1)
          show ?thesis
          proof (cases j1)
            case 0
            then show ?thesis
              using four sb decoded_nothing [of whole] by (simp add: Cons r k1 k2 cut_short_def)
          next
            case k3: (Suc j2)
            show ?thesis
            proof (cases j2)
              case 0
              then show ?thesis
                using four sb c(2) decoded_nothing [of whole]
                by (simp add: Cons r k1 k2 k3 cut_short_def)
            next
              case (Suc j3)
              from decoded_step [OF s [of j3], of ?c] show ?thesis
                using four c by (simp add: Cons r k1 k2 k3 Suc t(2) Let_def)
            qed
          qed
        qed
      qed
    next
      case bad
      with d Cons show ?thesis by auto
    qed
  qed
qed

lemma decode_utf8_so_far_prefix:
  assumes "decode_utf8 (a @ b) = Some whole"
  shows "\<exists>n. decode_utf8_so_far a = Some (take n whole)"
proof -
  have "take (length a) (map unat (a @ b)) = map unat a" by simp
  with utf8_decode_prefix [of "map unat (a @ b)" whole "length a"] assms show ?thesis
    by (simp add: decode_utf8_def decode_utf8_so_far_def)
qed

lemma concat_split_reads: "concat (split_reads reads m) = m"
  by (induction reads m rule: split_reads.induct) simp_all
section \<open>The extractor\<close>

lemma soup_find_None_iff:
  "soup_find soup nm cls = None \<longleftrightarrow> \<not> (\<exists>e \<in> set (descendants soup). matches nm cls e)"
  by (auto simp: soup_find_def find_None_iff)

lemma find_first:
  "P x \<Longrightarrow> \<forall>e \<in> set before. \<not> P e \<Longrightarrow> List.find P (before @ x # after) = Some x"
  by (induction before) simp_all

lemma first_match:
  "List.find P xs = Some x \<Longrightarrow>
   \<exists>before after. xs = before @ x # after \<and> P x \<and> (\<forall>e \<in> set before. \<not> P e)"
proof (induction xs)
  case Nil
  then show ?case by simp
next
  case (Cons a xs)
  show ?case
  proof (cases "P a")
    case True
    with Cons.prems have "a # xs = [] @ x # xs \<and> P x \<and> (\<forall>e \<in> set []. \<not> P e)" by simp
    then show ?thesis by blast
  next
    case False
    with Cons obtain before after where
      "xs = before @ x # after \<and> P x \<and> (\<forall>e \<in> set before. \<not> P e)"
      by auto
    with False have
      "a # xs = (a # before) @ x # after \<and> P x \<and> (\<forall>e \<in> set (a # before). \<not> P e)"
      by simp
    then show ?thesis by blast
  qed
qed

text \<open>
  C1. When no \<open>img\<close> tag of class \<open>comic\<close> is among the nodes of the page, extraction
  returns \<open>None\<close>. When there is one, there is a first one in document order, and it
  decides the result: with its \<open>src\<close> attribute absent or empty, extraction returns
  \<open>None\<close>; otherwise it succeeds, \<open>image_url\<close> is the site origin followed by the
  \<open>src\<close> attribute, and \<open>title\<close> is the \<open>title\<close> attribute, or \<open>unknown\<close> when the tag
  has none.
\<close>

theorem extract_comic_data_spec:
  "(\<not> (\<exists>e \<in> set (descendants soup). matches (py ''img'') (py ''comic'') e)
      \<longrightarrow> extract_comic_data soup = None)
   \<and> ((\<exists>e \<in> set (descendants soup). matches (py ''img'') (py ''comic'') e)
      \<longrightarrow> (\<exists>before comic_img after.
             descendants soup = before @ comic_img # after
             \<and> matches (py ''img'') (py ''comic'') comic_img
             \<and> (\<forall>e \<in> set before. \<not> matches (py ''img'') (py ''comic'') e)))
   \<and> (\<forall>before comic_img after.
         descendants soup = before @ comic_img # after
         \<and> matches (py ''img'') (py ''comic'') comic_img
         \<and> (\<forall>e \<in> set before. \<not> matches (py ''img'') (py ''comic'') e)
         \<longrightarrow> (tag_attrs comic_img (py ''src'') = None
                \<or> tag_attrs comic_img (py ''src'') = Some []
                \<longrightarrow> extract_comic_data soup = None)
             \<and> (\<forall>image_src.
                   tag_attrs comic_img (py ''src'') = Some image_src \<and> image_src \<noteq> []
                   \<longrightarrow> extract_comic_data soup =
                         Some \<lparr>image_url = QWANTZ_BASE_URL @ image_src,
                               title = (case tag_attrs comic_img (py ''title'') of
                                          None \<Rightarrow> py ''unknown''
                                        | Some t \<Rightarrow> t)\<rparr>))"
proof -
  let ?P = "matches (py ''img'') (py ''comic'')"
  have a: "extract_comic_data soup = None"
    if "\<not> (\<exists>e \<in> set (descendants soup). ?P e)"
    using that soup_find_None_iff [of soup "py ''img''" "py ''comic''"]
    by (simp add: extract_comic_data_def)
  have f: "\<exists>before comic_img after.
             descendants soup = before @ comic_img # after \<and> ?P comic_img
             \<and> (\<forall>e \<in> set before. \<not> ?P e)"
    if "\<exists>e \<in> set (descendants soup). ?P e"
  proof -
    from that obtain x where "List.find ?P (descendants soup) = Some x"
      by (cases "List.find ?P (descendants soup)") (auto simp: find_None_iff)
    from first_match [OF this] show ?thesis by blast
  qed
  have s: "soup_find soup (py ''img'') (py ''comic'') = Some comic_img"
    if "descendants soup = before @ comic_img # after" and "?P comic_img"
      and "\<forall>e \<in> set before. \<not> ?P e"
    for before comic_img after
    using that find_first [of ?P comic_img before after] by (simp add: soup_find_def)
  have b: "extract_comic_data soup = None"
    if "descendants soup = before @ comic_img # after" and "?P comic_img"
      and "\<forall>e \<in> set before. \<not> ?P e"
      and "tag_attrs comic_img (py ''src'') = None \<or> tag_attrs comic_img (py ''src'') = Some []"
    for before comic_img after
    using s [OF that(1-3)] that(4) by (auto simp: extract_comic_data_def)
  have c: "extract_comic_data soup =
             Some \<lparr>image_url = QWANTZ_BASE_URL @ image_src,
                   title = (case tag_attrs comic_img (py ''title'') of
                              None \<Rightarrow> py ''unknown'' | Some t \<Rightarrow> t)\<rparr>"
    if "descendants soup = before @ comic_img # after" and "?P comic_img"
      and "\<forall>e \<in> set before. \<not> ?P e"
      and "tag_attrs comic_img (py ''src'') = Some image_src \<and> image_src \<noteq> []"
    for before comic_img after image_src
    using s [OF that(1-3)] that(4) by (simp add: extract_comic_data_def)
  from a f b c show ?thesis by blast
qed

lemma soup_find_page_with:
  "soup_find (page_with (img_tag at)) (py ''img'') (py ''comic'') = Some (img_tag at)"
  by (simp add: soup_find_def page_with_def img_tag_def py_def ord_def)

lemma page_with_first:
  "\<exists>before after.
     descendants (page_with (img_tag at)) = before @ img_tag at # after
     \<and> matches (py ''img'') (py ''comic'') (img_tag at)
     \<and> (\<forall>e \<in> set before. \<not> matches (py ''img'') (py ''comic'') e)"
  using soup_find_page_with [of at] first_match
    [of "matches (py ''img'') (py ''comic'')" "descendants (page_with (img_tag at))" "img_tag at"]
  by (simp add: soup_find_def)

lemma busy_page_first:
  "\<exists>before after.
     descendants (busy_page at1 at2)
       = before @ Tag (py ''img'') [py ''wide'', py ''comic''] at1 [] # after
     \<and> matches (py ''img'') (py ''comic'') (Tag (py ''img'') [py ''wide'', py ''comic''] at1 [])
     \<and> (\<forall>e \<in> set before. \<not> matches (py ''img'') (py ''comic'') e)"
proof -
  have "List.find (matches (py ''img'') (py ''comic'')) (descendants (busy_page at1 at2))
          = Some (Tag (py ''img'') [py ''wide'', py ''comic''] at1 [])"
    by (simp add: busy_page_def py_def ord_def)
  from first_match [OF this] show ?thesis .
qed

theorem extract_comic_data_spec_witness:
  "extract_comic_data (page_with (NavigableString (py ''no comic today''))) = None
   \<and> extract_comic_data (page_with (img_tag [py ''title'' \<mapsto> py ''A Title''])) = None
   \<and> extract_comic_data (page_with (img_tag [py ''src'' \<mapsto> [], py ''title'' \<mapsto> py ''A Title''])) = None
   \<and> extract_comic_data
        (page_with (img_tag [py ''src'' \<mapsto> py ''comics/1234/foo.png'', py ''title'' \<mapsto> py ''A Title'']))
       = Some \<lparr>image_url = py ''https://www.qwantz.com/comics/1234/foo.png'', title = py ''A Title''\<rparr>
   \<and> extract_comic_data (page_with (img_tag [py ''src'' \<mapsto> py ''comics/1234/foo.png'']))
       = Some \<lparr>image_url = py ''https://www.qwantz.com/comics/1234/foo.png'', title = py ''unknown''\<rparr>
   \<and> extract_comic_data
        (busy_page [py ''src'' \<mapsto> py ''comics/1234/foo.png'', py ''title'' \<mapsto> py ''A Title'']
                   [py ''src'' \<mapsto> py ''comics/other.png'', py ''title'' \<mapsto> py ''Other''])
       = Some \<lparr>image_url = py ''https://www.qwantz.com/comics/1234/foo.png'', title = py ''A Title''\<rparr>
   \<and> extract_comic_data
        (busy_page [py ''title'' \<mapsto> py ''A Title'']
                   [py ''src'' \<mapsto> py ''comics/other.png'', py ''title'' \<mapsto> py ''Other''])
       = None"
proof -
  let ?full = "[py ''src'' \<mapsto> py ''comics/1234/foo.png'', py ''title'' \<mapsto> py ''A Title'']"
  let ?other = "[py ''src'' \<mapsto> py ''comics/other.png'', py ''title'' \<mapsto> py ''Other'']"
  have n: "\<not> (\<exists>e \<in> set (descendants (page_with (NavigableString (py ''no comic today'')))).
              matches (py ''img'') (py ''comic'') e)"
    by (simp add: page_with_def py_def ord_def)
  have k: "py ''src'' \<noteq> py ''title''" "py ''comics/1234/foo.png'' \<noteq> []"
    by (simp_all add: py_def ord_def)
  have at: "tag_attrs (img_tag x) = x" for x
    by (simp add: img_tag_def)
  have u: "QWANTZ_BASE_URL @ py ''comics/1234/foo.png'' = py ''https://www.qwantz.com/comics/1234/foo.png''"
    by (simp add: QWANTZ_BASE_URL_def py_def)
  have p1: "extract_comic_data (page_with (NavigableString (py ''no comic today''))) = None"
    using extract_comic_data_spec [of "page_with (NavigableString (py ''no comic today''))"] n
    by blast
  have p2: "extract_comic_data (page_with (img_tag [py ''title'' \<mapsto> py ''A Title''])) = None"
  proof -
    from page_with_first [of "[py ''title'' \<mapsto> py ''A Title'']"] obtain before after where
      "descendants (page_with (img_tag [py ''title'' \<mapsto> py ''A Title'']))
         = before @ img_tag [py ''title'' \<mapsto> py ''A Title''] # after
       \<and> matches (py ''img'') (py ''comic'') (img_tag [py ''title'' \<mapsto> py ''A Title''])
       \<and> (\<forall>e \<in> set before. \<not> matches (py ''img'') (py ''comic'') e)"
      by blast
    moreover have "tag_attrs (img_tag [py ''title'' \<mapsto> py ''A Title'']) (py ''src'') = None"
      using k by (simp add: at)
    ultimately show ?thesis
      using extract_comic_data_spec [of "page_with (img_tag [py ''title'' \<mapsto> py ''A Title''])"]
      by blast
  qed
  have p3: "extract_comic_data (page_with (img_tag [py ''src'' \<mapsto> [], py ''title'' \<mapsto> py ''A Title''])) = None"
  proof -
    let ?at = "[py ''src'' \<mapsto> [], py ''title'' \<mapsto> py ''A Title'']"
    from page_with_first [of ?at] obtain before after where
      "descendants (page_with (img_tag ?at)) = before @ img_tag ?at # after
       \<and> matches (py ''img'') (py ''comic'') (img_tag ?at)
       \<and> (\<forall>e \<in> set before. \<not> matches (py ''img'') (py ''comic'') e)"
      by blast
    moreover have "tag_attrs (img_tag ?at) (py ''src'') = Some []"
      using k by (simp add: at)
    ultimately show ?thesis
      using extract_comic_data_spec [of "page_with (img_tag ?at)"]
      by blast
  qed
  have p4: "extract_comic_data (page_with (img_tag ?full))
       = Some \<lparr>image_url = py ''https://www.qwantz.com/comics/1234/foo.png'', title = py ''A Title''\<rparr>"
  proof -
    from page_with_first [of ?full] obtain before after where
      "descendants (page_with (img_tag ?full)) = before @ img_tag ?full # after
       \<and> matches (py ''img'') (py ''comic'') (img_tag ?full)
       \<and> (\<forall>e \<in> set before. \<not> matches (py ''img'') (py ''comic'') e)"
      by blast
    moreover have "tag_attrs (img_tag ?full) (py ''src'') = Some (py ''comics/1234/foo.png'')
                   \<and> py ''comics/1234/foo.png'' \<noteq> []"
      using k by (simp add: at)
    ultimately have "extract_comic_data (page_with (img_tag ?full))
        = Some \<lparr>image_url = QWANTZ_BASE_URL @ py ''comics/1234/foo.png'',
                title = (case tag_attrs (img_tag ?full) (py ''title'') of
                           None \<Rightarrow> py ''unknown'' | Some t \<Rightarrow> t)\<rparr>"
      using extract_comic_data_spec [of "page_with (img_tag ?full)"]
      by blast
    then show ?thesis by (simp add: at u)
  qed
  have p5: "extract_comic_data (page_with (img_tag [py ''src'' \<mapsto> py ''comics/1234/foo.png'']))
       = Some \<lparr>image_url = py ''https://www.qwantz.com/comics/1234/foo.png'', title = py ''unknown''\<rparr>"
  proof -
    let ?at = "[py ''src'' \<mapsto> py ''comics/1234/foo.png'']"
    from page_with_first [of ?at] obtain before after where
      "descendants (page_with (img_tag ?at)) = before @ img_tag ?at # after
       \<and> matches (py ''img'') (py ''comic'') (img_tag ?at)
       \<and> (\<forall>e \<in> set before. \<not> matches (py ''img'') (py ''comic'') e)"
      by blast
    moreover have "tag_attrs (img_tag ?at) (py ''src'') = Some (py ''comics/1234/foo.png'')
                   \<and> py ''comics/1234/foo.png'' \<noteq> []"
      using k by (simp add: at)
    ultimately have "extract_comic_data (page_with (img_tag ?at))
        = Some \<lparr>image_url = QWANTZ_BASE_URL @ py ''comics/1234/foo.png'',
                title = (case tag_attrs (img_tag ?at) (py ''title'') of
                           None \<Rightarrow> py ''unknown'' | Some t \<Rightarrow> t)\<rparr>"
      using extract_comic_data_spec [of "page_with (img_tag ?at)"]
      by blast
    then show ?thesis using k by (simp add: at u)
  qed
  have p6: "extract_comic_data (busy_page ?full ?other)
       = Some \<lparr>image_url = py ''https://www.qwantz.com/comics/1234/foo.png'', title = py ''A Title''\<rparr>"
  proof -
    let ?img = "Tag (py ''img'') [py ''wide'', py ''comic''] ?full []"
    from busy_page_first [of ?full ?other] obtain before after where
      "descendants (busy_page ?full ?other) = before @ ?img # after
       \<and> matches (py ''img'') (py ''comic'') ?img
       \<and> (\<forall>e \<in> set before. \<not> matches (py ''img'') (py ''comic'') e)"
      by blast
    moreover have "tag_attrs ?img (py ''src'') = Some (py ''comics/1234/foo.png'')
                   \<and> py ''comics/1234/foo.png'' \<noteq> []"
      using k by simp
    ultimately have "extract_comic_data (busy_page ?full ?other)
        = Some \<lparr>image_url = QWANTZ_BASE_URL @ py ''comics/1234/foo.png'',
                title = (case tag_attrs ?img (py ''title'') of
                           None \<Rightarrow> py ''unknown'' | Some t \<Rightarrow> t)\<rparr>"
      using extract_comic_data_spec [of "busy_page ?full ?other"]
      by blast
    then show ?thesis by (simp add: u)
  qed
  have p7: "extract_comic_data (busy_page [py ''title'' \<mapsto> py ''A Title''] ?other) = None"
  proof -
    let ?img = "Tag (py ''img'') [py ''wide'', py ''comic''] [py ''title'' \<mapsto> py ''A Title''] []"
    from busy_page_first [of "[py ''title'' \<mapsto> py ''A Title'']" ?other] obtain before after where
      "descendants (busy_page [py ''title'' \<mapsto> py ''A Title''] ?other) = before @ ?img # after
       \<and> matches (py ''img'') (py ''comic'') ?img
       \<and> (\<forall>e \<in> set before. \<not> matches (py ''img'') (py ''comic'') e)"
      by blast
    moreover have "tag_attrs ?img (py ''src'') = None"
      using k by simp
    ultimately show ?thesis
      using extract_comic_data_spec [of "busy_page [py ''title'' \<mapsto> py ''A Title''] ?other"]
      by blast
  qed
  from p1 p2 p3 p4 p5 p6 p7 show ?thesis by simp
qed

section \<open>The file extension\<close>

text \<open>
  Where the last path segment has a dot, the extension \<open>get_file_extension\<close> returns
  is the one the specification words; for every URL that ends in \<open>/foo.png?cache=1\<close>
  the extension is \<open>png\<close> and the base filename is \<open>foo\<close>.
\<close>

lemma get_file_extension_with_dot:
  "ord CHR ''.'' \<in> set (image_filename_of url) \<Longrightarrow>
   get_file_extension url = extension_of_last_segment url"
proof -
  assume d: "ord CHR ''.'' \<in> set (image_filename_of url)"
  obtain a where "url = a @ image_filename_of url"
    using str_split_last_segment [of url "ord CHR ''/''"]
    by (auto simp: image_filename_of_def)
  then have "last (str_split (ord CHR ''.'') url)
               = last (str_split (ord CHR ''.'') (image_filename_of url))"
    using last_str_split_suffix [OF d, of a] by simp
  then show ?thesis
    by (simp add: get_file_extension_def extension_of_last_segment_def image_filename_of_def)
qed

lemma get_file_extension_example:
  "get_file_extension (p @ py ''/foo.png?cache=1'') = py ''png''"
  "base_filename_of (p @ py ''/foo.png?cache=1'') = py ''foo''"
proof -
  have e: "py ''/foo.png?cache=1'' = (ord CHR ''/'' # py ''foo'') @ ord CHR ''.'' # py ''png?cache=1''"
    by (simp add: py_def)
  have "ord CHR ''.'' \<notin> set (py ''png?cache=1'')"
    by (simp add: py_def ord_def)
  then have "last (str_split (ord CHR ''.'') ((p @ ord CHR ''/'' # py ''foo'') @ ord CHR ''.'' # py ''png?cache=1''))
               = py ''png?cache=1''"
    by (rule last_str_split)
  then show "get_file_extension (p @ py ''/foo.png?cache=1'') = py ''png''"
    by (simp add: get_file_extension_def e py_def ord_def)
  have f: "py ''/foo.png?cache=1'' = ord CHR ''/'' # py ''foo.png?cache=1''"
    by (simp add: py_def)
  have "ord CHR ''/'' \<notin> set (py ''foo.png?cache=1'')"
    by (simp add: py_def ord_def)
  then have "last (str_split (ord CHR ''/'') (p @ ord CHR ''/'' # py ''foo.png?cache=1''))
               = py ''foo.png?cache=1''"
    by (rule last_str_split)
  then show "base_filename_of (p @ py ''/foo.png?cache=1'') = py ''foo''"
    by (simp add: base_filename_of_def image_filename_of_def f str_rsplit1_def py_def ord_def)
qed

text \<open>
  C6 fails on a URL whose last path segment has no dot. The last segment of
  \<open>https://www.qwantz.com/comics/foo\<close> is \<open>foo\<close>, yet \<open>get_file_extension\<close> returns
  \<open>com/comics/foo\<close>, which is no part of that segment: line 144 of scraper.py splits
  the whole URL at its dots, where lines 168 and 169 take the file name from the last
  segment, and the image path becomes \<open>foo.com/comics/foo\<close>. On a query string with a
  dot, \<open>foo.png?v=1.2\<close>, it returns \<open>2\<close>: the URL is split at the dots before the query
  string is cut off.
\<close>

theorem get_file_extension_splits_whole_url:
  "get_file_extension (py ''https://www.qwantz.com/comics/foo'') = py ''com/comics/foo''
   \<and> image_filename_of (py ''https://www.qwantz.com/comics/foo'') = py ''foo''
   \<and> extension_of_last_segment (py ''https://www.qwantz.com/comics/foo'') = py ''foo''
   \<and> \<not> contains (py ''foo'') (py ''com/comics/foo'')
   \<and> image_path_of (py ''https://www.qwantz.com/comics/foo'') = py ''foo.com/comics/foo''
   \<and> get_file_extension (py ''https://www.qwantz.com/comics/foo.png?v=1.2'') = py ''2''"
  by (simp add: get_file_extension_def extension_of_last_segment_def image_filename_of_def
      image_path_of_def base_filename_of_def str_rsplit1_def startswith_def py_def ord_def)

section \<open>The acquisition flow\<close>

subsection \<open>One run, step by step\<close>

lemma paths_differ: "image_path_of url \<noteq> metadata_path_of url"
  by (simp add: image_path_of_def metadata_path_of_def py_def ord_def)

lemma save_image_cases:
  "save_image e w b p = (r, w') \<Longrightarrow>
     opened w' = opened w @ [p]
     \<and> (\<forall>q. q \<noteq> p \<longrightarrow> files w' q = files w q)
     \<and> (r = Inr True \<longrightarrow> files w' p = Some b)"
  by (auto simp: save_image_def Let_def split: io_outcome.splits)

lemma write_metadata_cases:
  "write_metadata e w d p = (r, w') \<Longrightarrow>
     opened w' = opened w @ [p]
     \<and> (\<forall>q. q \<noteq> p \<longrightarrow> files w' q = files w q)
     \<and> (r = Inr True \<longrightarrow>
          (\<exists>l1 l2. encode_utf8 (title_line d) = Some l1 \<and> encode_utf8 (image_url_line d) = Some l2
             \<and> files w' p = Some (l1 @ l2)))"
  by (auto simp: write_metadata_def Let_def split: io_outcome.splits option.splits)

lemma get_current_comic_unfold:
  assumes "fetch_webpage e QWANTZ_BASE_URL = Some soup"
    and "extract_comic_data soup = Some d"
    and "download_image e (image_url d) = Some b"
  shows "get_current_comic e w =
           (case save_image e w b (image_path_of (image_url d)) of
              (Inl x, w1) \<Rightarrow> (Inl x, w1)
            | (Inr saved, w1) \<Rightarrow>
                if \<not> saved then (Inr False, w1)
                else write_metadata e w1 d (metadata_path_of (image_url d)))"
  using assms by (simp add: get_current_comic_def)

lemma flow_cases:
  assumes "fetch_webpage e QWANTZ_BASE_URL = Some soup"
    and "extract_comic_data soup = Some d"
    and "download_image e (image_url d) = Some b"
    and "save_image e w b (image_path_of (image_url d)) = (r1, w1)"
  shows "r1 \<noteq> Inr True \<Longrightarrow> get_current_comic e w = (r1, w1)"
    and "r1 = Inr True \<Longrightarrow>
           get_current_comic e w = write_metadata e w1 d (metadata_path_of (image_url d))"
  using get_current_comic_unfold [OF assms(1-3), of w] assms(4)
  by (cases r1; auto)+

subsection \<open>Runs on the example environment\<close>

lemma example_fetch:
  "fetch_webpage (example_env src outcome) QWANTZ_BASE_URL
     = Some (page_with (img_tag [py ''src'' \<mapsto> src, py ''title'' \<mapsto> py ''T'']))"
  by (simp add: fetch_webpage_def example_env_def)

lemma example_extract:
  "src \<noteq> [] \<Longrightarrow>
   extract_comic_data (page_with (img_tag [py ''src'' \<mapsto> src, py ''title'' \<mapsto> py ''T'']))
     = Some \<lparr>image_url = QWANTZ_BASE_URL @ src, title = py ''T''\<rparr>"
proof -
  have k: "py ''src'' \<noteq> py ''title''" by (simp add: py_def ord_def)
  assume "src \<noteq> []"
  moreover have "tag_attrs (img_tag x) = x" for x
    by (simp add: img_tag_def)
  ultimately show ?thesis using k
    by (simp add: extract_comic_data_def soup_find_page_with)
qed

lemma example_download:
  "download_image (example_env src outcome) (QWANTZ_BASE_URL @ src) = Some example_png"
  by (simp add: download_image_def example_env_def)

lemma example_io: "io (example_env src outcome) = outcome"
  by (simp add: example_env_def)

lemma strip_names:
  "base_filename_of (QWANTZ_BASE_URL @ py ''comics/strip.png'') = py ''strip''"
  "get_file_extension (QWANTZ_BASE_URL @ py ''comics/strip.png'') = py ''png''"
  by (simp_all add: base_filename_of_def image_filename_of_def get_file_extension_def
      str_rsplit1_def QWANTZ_BASE_URL_def py_def ord_def)

lemma strip_paths:
  "image_path_of (QWANTZ_BASE_URL @ py ''comics/strip.png'') = py ''strip.png''"
  "metadata_path_of (QWANTZ_BASE_URL @ py ''comics/strip.png'') = py ''strip_metadata.txt''"
  by (simp_all add: image_path_of_def metadata_path_of_def strip_names) (simp_all add: py_def)

lemma ascii_encodable: "\<forall>c \<in> set (py s). scalar_value c"
proof -
  have "ord c < 256" for c
    unfolding ord_def by (cases c) (simp add: of_char_def)
  then have "scalar_value (ord c)" for c
    using less_trans [of "ord c" 256 55296] by (simp add: scalar_value_def)
  then show ?thesis
    by (simp add: py_def)
qed

lemma encode_utf8_None_append:
  "(encode_utf8 (a @ b) = None) = (encode_utf8 a = None \<or> encode_utf8 b = None)"
  by (auto simp: encode_utf8_def)

lemma encode_utf8_ascii: "encode_utf8 (py s) \<noteq> None"
  using ascii_encodable [of s] by (simp add: encode_utf8_def)

lemma encode_utf8_LF: "encode_utf8 [LF] \<noteq> None"
  by (simp add: encode_utf8_def scalar_value_def)

lemma example_lines_encodable:
  "encode_utf8 (title_line \<lparr>image_url = QWANTZ_BASE_URL @ py s, title = py ''T''\<rparr>) \<noteq> None"
  "encode_utf8 (image_url_line \<lparr>image_url = QWANTZ_BASE_URL @ py s, title = py ''T''\<rparr>) \<noteq> None"
  by (simp_all add: title_line_def image_url_line_def QWANTZ_BASE_URL_def
      encode_utf8_None_append encode_utf8_ascii encode_utf8_LF)

lemma example_run:
  assumes "s \<noteq> []"
  shows "fst (get_current_comic (example_env (py s) (\<lambda>p. IoOk)) empty_world) = Inr True"
    and "opened (snd (get_current_comic (example_env (py s) (\<lambda>p. IoOk)) empty_world))
           = [image_path_of (QWANTZ_BASE_URL @ py s), metadata_path_of (QWANTZ_BASE_URL @ py s)]"
proof -
  let ?e = "example_env (py s) (\<lambda>p. IoOk)"
  let ?d = "\<lparr>image_url = QWANTZ_BASE_URL @ py s, title = py ''T''\<rparr>"
  have x: "extract_comic_data (page_with (img_tag [py ''src'' \<mapsto> py s, py ''title'' \<mapsto> py ''T'']))
           = Some ?d"
    using assms by (intro example_extract) (simp add: py_def)
  have d: "download_image ?e (image_url ?d) = Some example_png"
    by (simp add: example_download)
  note u = get_current_comic_unfold [OF example_fetch x d, of empty_world]
  show "fst (get_current_comic ?e empty_world) = Inr True"
    using example_lines_encodable [of s]
    by (auto simp: u save_image_def write_metadata_def example_io Let_def)
  show "opened (snd (get_current_comic ?e empty_world))
           = [image_path_of (QWANTZ_BASE_URL @ py s), metadata_path_of (QWANTZ_BASE_URL @ py s)]"
    using example_lines_encodable [of s]
    by (auto simp: u save_image_def write_metadata_def example_io Let_def)
       (simp_all add: empty_world_def)
qed

lemma example_run_open_fails:
  assumes "s \<noteq> []"
  shows "fst (save_image (example_env (py s) (\<lambda>p. OpenOSError)) empty_world example_png
                (image_path_of (QWANTZ_BASE_URL @ py s))) = Inr False"
  by (simp add: save_image_def example_io Let_def)

lemma dino_names:
  "base_filename_of (QWANTZ_BASE_URL @ py ''comics/100%dino.png'') = py ''100%dino''"
  "get_file_extension (QWANTZ_BASE_URL @ py ''comics/100%dino.png'') = py ''png''"
  by (simp_all add: base_filename_of_def image_filename_of_def get_file_extension_def
      str_rsplit1_def QWANTZ_BASE_URL_def py_def ord_def)

lemma dino_paths:
  "image_path_of (QWANTZ_BASE_URL @ py ''comics/100%dino.png'') = py ''100%dino.png''"
  "metadata_path_of (QWANTZ_BASE_URL @ py ''comics/100%dino.png'') = py ''100%dino_metadata.txt''"
  by (simp_all add: image_path_of_def metadata_path_of_def dino_names) (simp_all add: py_def)

subsection \<open>What a successful run leaves\<close>

text \<open>
  C2. After a run of \<open>get_current_comic\<close> that returns \<open>True\<close>, for the extracted
  record and the downloaded bytes \<open>b\<close>: the file \<open><base>.<extension>\<close> holds exactly
  \<open>b\<close>, and the file \<open><base>_metadata.txt\<close> holds exactly the UTF-8 encoding of the
  two lines \<open>Title: <title>\<close> and \<open>Image URL: <image_url>\<close>, each ended by a newline;
  decoding it gives these two lines back.
\<close>

theorem archive_contents:
  assumes "fetch_webpage e QWANTZ_BASE_URL = Some soup"
    and "extract_comic_data soup = Some d"
    and "download_image e (image_url d) = Some b"
    and "fst (get_current_comic e w) = Inr True"
  shows "files (snd (get_current_comic e w))
           (base_filename_of (image_url d) @ py ''.'' @ get_file_extension (image_url d)) = Some b
         \<and> (\<exists>m. files (snd (get_current_comic e w))
                  (base_filename_of (image_url d) @ py ''_metadata.txt'') = Some m
                \<and> encode_utf8 (py ''Title: '' @ title d @ [LF]
                                @ py ''Image URL: '' @ image_url d @ [LF]) = Some m
                \<and> decode_utf8 m = Some (py ''Title: '' @ title d @ [LF]
                                         @ py ''Image URL: '' @ image_url d @ [LF]))"
proof -
  let ?ip = "image_path_of (image_url d)" and ?mp = "metadata_path_of (image_url d)"
  obtain r1 w1 where s: "save_image e w b ?ip = (r1, w1)"
    by (cases "save_image e w b ?ip")
  have u: "get_current_comic e w =
             (case (r1, w1) of
                (Inl x, w1) \<Rightarrow> (Inl x, w1)
              | (Inr saved, w1) \<Rightarrow>
                  if \<not> saved then (Inr False, w1) else write_metadata e w1 d ?mp)"
    using get_current_comic_unfold [OF assms(1-3), of w] s by simp
  with assms(4) have r1: "r1 = Inr True"
    by (cases r1) (auto split: if_splits)
  with u have g: "get_current_comic e w = write_metadata e w1 d ?mp"
    by simp
  obtain r2 w2 where m: "write_metadata e w1 d ?mp = (r2, w2)"
    by (cases "write_metadata e w1 d ?mp")
  with g assms(4) have r2: "r2 = Inr True" by simp
  from save_image_cases [OF s] r1 have f1: "files w1 ?ip = Some b" by simp
  from write_metadata_cases [OF m] r2 obtain l1 l2 where
    l: "encode_utf8 (title_line d) = Some l1" "encode_utf8 (image_url_line d) = Some l2"
       "files w2 ?mp = Some (l1 @ l2)"
    and other: "\<forall>q. q \<noteq> ?mp \<longrightarrow> files w2 q = files w1 q"
    by blast
  from other f1 paths_differ [of "image_url d"] have f2: "files w2 ?ip = Some b"
    by simp
  have enc: "encode_utf8 (title_line d @ image_url_line d) = Some (l1 @ l2)"
    using l(1,2) by (rule encode_utf8_append)
  then have dec: "decode_utf8 (l1 @ l2) = Some (title_line d @ image_url_line d)"
    by (rule decode_utf8_encode_utf8)
  from g m f2 l(3) enc dec show ?thesis
    by (simp add: image_path_of_def metadata_path_of_def title_line_def image_url_line_def)
qed

theorem archive_contents_witness:
  "fst (get_current_comic (example_env (py ''comics/strip.png'') (\<lambda>p. IoOk)) empty_world) = Inr True
   \<and> files (snd (get_current_comic (example_env (py ''comics/strip.png'') (\<lambda>p. IoOk)) empty_world))
        (py ''strip.png'') = Some example_png
   \<and> map_option decode_utf8
        (files (snd (get_current_comic (example_env (py ''comics/strip.png'') (\<lambda>p. IoOk)) empty_world))
           (py ''strip_metadata.txt''))
       = Some (Some (py ''Title: T'' @ [LF]
                     @ py ''Image URL: https://www.qwantz.com/comics/strip.png'' @ [LF]))"
proof -
  let ?e = "example_env (py ''comics/strip.png'') (\<lambda>p. IoOk)"
  let ?d = "\<lparr>image_url = QWANTZ_BASE_URL @ py ''comics/strip.png'', title = py ''T''\<rparr>"
  have f: "fetch_webpage ?e QWANTZ_BASE_URL
             = Some (page_with (img_tag [py ''src'' \<mapsto> py ''comics/strip.png'', py ''title'' \<mapsto> py ''T'']))"
    by (rule example_fetch)
  have x: "extract_comic_data
             (page_with (img_tag [py ''src'' \<mapsto> py ''comics/strip.png'', py ''title'' \<mapsto> py ''T'']))
           = Some ?d"
    by (rule example_extract) (simp add: py_def)
  have d: "download_image ?e (image_url ?d) = Some example_png"
    by (simp add: example_download)
  have t: "encode_utf8 (title_line ?d) \<noteq> None" "encode_utf8 (image_url_line ?d) \<noteq> None"
    using ascii_encodable [of "''Title: T''"]
      ascii_encodable [of "''Image URL: https://www.qwantz.com/comics/strip.png''"]
    by (simp_all add: encode_utf8_def title_line_def image_url_line_def QWANTZ_BASE_URL_def py_def
        scalar_value_def)
  have ok: "fst (get_current_comic ?e empty_world) = Inr True"
    using t by (auto simp: get_current_comic_unfold [OF f x d] save_image_def write_metadata_def
        example_io Let_def)
  have ip: "base_filename_of (image_url ?d) @ py ''.'' @ get_file_extension (image_url ?d)
              = py ''strip.png''"
    using strip_paths(1) by (simp add: image_path_of_def)
  have mp: "base_filename_of (image_url ?d) @ py ''_metadata.txt'' = py ''strip_metadata.txt''"
    using strip_paths(2) by (simp add: metadata_path_of_def)
  have tx: "py ''Title: '' @ title ?d @ [LF] @ py ''Image URL: '' @ image_url ?d @ [LF]
              = py ''Title: T'' @ [LF]
                @ py ''Image URL: https://www.qwantz.com/comics/strip.png'' @ [LF]"
    by (simp add: QWANTZ_BASE_URL_def py_def)
  from archive_contents [OF f x d ok, unfolded ip mp tx] ok show ?thesis
    by auto
qed

subsection \<open>A failed image write\<close>

text \<open>
  C5. When \<open>save_image\<close> fails (returns \<open>False\<close>), \<open>get_current_comic\<close> returns
  \<open>False\<close>. Whenever \<open>save_image\<close> does not return \<open>True\<close>, the run opens the image
  path and nothing else, and the metadata file is what it was before. A run that opens
  the metadata path has saved the image first, and the image file holds the downloaded
  bytes at the end of it: no run leaves a metadata file of its own without the image.
\<close>

theorem image_failure_skips_metadata:
  assumes "fetch_webpage e QWANTZ_BASE_URL = Some soup"
    and "extract_comic_data soup = Some d"
    and "download_image e (image_url d) = Some b"
  shows "(fst (save_image e w b (image_path_of (image_url d))) = Inr False
            \<longrightarrow> fst (get_current_comic e w) = Inr False)
         \<and> (fst (save_image e w b (image_path_of (image_url d))) \<noteq> Inr True
            \<longrightarrow> opened (snd (get_current_comic e w)) = opened w @ [image_path_of (image_url d)]
                \<and> files (snd (get_current_comic e w)) (metadata_path_of (image_url d))
                    = files w (metadata_path_of (image_url d)))
         \<and> (metadata_path_of (image_url d) \<in> set (opened (snd (get_current_comic e w)))
              \<and> metadata_path_of (image_url d) \<notin> set (opened w)
            \<longrightarrow> fst (save_image e w b (image_path_of (image_url d))) = Inr True
                \<and> files (snd (get_current_comic e w)) (image_path_of (image_url d)) = Some b)"
proof -
  let ?ip = "image_path_of (image_url d)" and ?mp = "metadata_path_of (image_url d)"
  obtain r1 w1 where s: "save_image e w b ?ip = (r1, w1)"
    by (cases "save_image e w b ?ip")
  note sc = save_image_cases [OF s]
  note fc = flow_cases [OF assms s]
  have ne: "?mp \<noteq> ?ip" using paths_differ [of "image_url d"] by simp
  have a: "fst (get_current_comic e w) = Inr False" if "r1 = Inr False"
    using fc(1) that by simp
  have b: "opened (snd (get_current_comic e w)) = opened w @ [?ip]
           \<and> files (snd (get_current_comic e w)) ?mp = files w ?mp" if "r1 \<noteq> Inr True"
    using fc(1) [OF that] sc ne by simp
  have c: "r1 = Inr True \<and> files (snd (get_current_comic e w)) ?ip = Some b"
    if o: "?mp \<in> set (opened (snd (get_current_comic e w)))" and n: "?mp \<notin> set (opened w)"
  proof (cases "r1 = Inr True")
    case True
    obtain r2 w2 where m: "write_metadata e w1 d ?mp = (r2, w2)"
      by (cases "write_metadata e w1 d ?mp")
    from write_metadata_cases [OF m] ne have "files w2 ?ip = files w1 ?ip" by simp
    with sc True fc(2) [OF True] m show ?thesis by simp
  next
    case False
    with b o n ne show ?thesis by simp
  qed
  from a b c s show ?thesis by simp
qed

theorem image_failure_skips_metadata_witness:
  "fst (save_image (example_env (py ''comics/strip.png'') (\<lambda>p. OpenOSError)) empty_world
          example_png (py ''strip.png'')) = Inr False
   \<and> fst (get_current_comic (example_env (py ''comics/strip.png'') (\<lambda>p. OpenOSError)) empty_world)
       = Inr False
   \<and> opened (snd (get_current_comic (example_env (py ''comics/strip.png'') (\<lambda>p. OpenOSError))
                     empty_world)) = [py ''strip.png'']
   \<and> files (snd (get_current_comic (example_env (py ''comics/strip.png'') (\<lambda>p. OpenOSError))
                    empty_world)) (py ''strip_metadata.txt'') = None
   \<and> py ''strip_metadata.txt''
       \<in> set (opened (snd (get_current_comic (example_env (py ''comics/strip.png'') (\<lambda>p. IoOk))
                             empty_world)))
   \<and> files (snd (get_current_comic (example_env (py ''comics/strip.png'') (\<lambda>p. IoOk)) empty_world))
        (py ''strip.png'') = Some example_png"
proof -
  let ?d = "\<lparr>image_url = QWANTZ_BASE_URL @ py ''comics/strip.png'', title = py ''T''\<rparr>"
  have ne: "''comics/strip.png'' \<noteq> []" by simp
  have x: "extract_comic_data
             (page_with (img_tag [py ''src'' \<mapsto> py ''comics/strip.png'', py ''title'' \<mapsto> py ''T'']))
           = Some ?d"
    by (rule example_extract) (simp add: py_def)
  have d: "download_image (example_env (py ''comics/strip.png'') outcome) (image_url ?d)
             = Some example_png" for outcome
    by (simp add: example_download)
  have p: "image_path_of (image_url ?d) = py ''strip.png''"
    "metadata_path_of (image_url ?d) = py ''strip_metadata.txt''"
    by (simp_all add: strip_paths)
  have fl: "fst (save_image (example_env (py ''comics/strip.png'') (\<lambda>p. OpenOSError)) empty_world
              example_png (py ''strip.png'')) = Inr False"
    using example_run_open_fails [OF ne] by (simp add: strip_paths)
  have o: "py ''strip_metadata.txt''
       \<in> set (opened (snd (get_current_comic (example_env (py ''comics/strip.png'') (\<lambda>p. IoOk))
                             empty_world)))"
    by (simp add: example_run(2) [OF ne] strip_paths)
  have w: "opened empty_world = []" "files empty_world (py ''strip_metadata.txt'') = None"
    by (simp_all add: empty_world_def)
  from image_failure_skips_metadata
      [OF example_fetch x d, of "\<lambda>p. OpenOSError" empty_world, unfolded p] fl w
    image_failure_skips_metadata
      [OF example_fetch x d, of "\<lambda>p. IoOk" empty_world, unfolded p] o
  show ?thesis by simp
qed

subsection \<open>The names a run uses\<close>

text \<open>
  C8, as amended. The names the acquisition flow uses are the derived ones as they
  are, not passed through \<open>sanitize_filename\<close>: a run opens at most the image path and
  then the metadata path, both on one base filename, which is the last \<open>/\<close>-segment of
  the image URL up to its last dot; a successful run opens both. That base filename is
  its own sanitized form exactly when it has no forbidden character.
\<close>

theorem base_filename_unsanitized:
  assumes "fetch_webpage e QWANTZ_BASE_URL = Some soup"
    and "extract_comic_data soup = Some d"
  shows "(\<exists>ps. opened (snd (get_current_comic e w)) = opened w @ ps
            \<and> (ps = []
               \<or> ps = [base_filename_of (image_url d) @ py ''.'' @ get_file_extension (image_url d)]
               \<or> ps = [base_filename_of (image_url d) @ py ''.'' @ get_file_extension (image_url d),
                        base_filename_of (image_url d) @ py ''_metadata.txt''])
            \<and> (fst (get_current_comic e w) = Inr True
               \<longrightarrow> ps = [base_filename_of (image_url d) @ py ''.'' @ get_file_extension (image_url d),
                         base_filename_of (image_url d) @ py ''_metadata.txt'']))
         \<and> base_filename_of (image_url d)
             = hd (str_rsplit1 (ord CHR ''.'') (last (str_split (ord CHR ''/'') (image_url d))))
         \<and> (sanitize_filename (base_filename_of (image_url d)) = base_filename_of (image_url d)
              \<longleftrightarrow> set (base_filename_of (image_url d)) \<inter> set INVALID_FILENAME_CHARS = {})"
proof -
  let ?ip = "image_path_of (image_url d)" and ?mp = "metadata_path_of (image_url d)"
  have p: "\<exists>ps. opened (snd (get_current_comic e w)) = opened w @ ps
            \<and> (ps = [] \<or> ps = [?ip] \<or> ps = [?ip, ?mp])
            \<and> (fst (get_current_comic e w) = Inr True \<longrightarrow> ps = [?ip, ?mp])"
  proof (cases "download_image e (image_url d)")
    case None
    with assms show ?thesis by (simp add: get_current_comic_def)
  next
    case (Some b)
    obtain r1 w1 where s: "save_image e w b ?ip = (r1, w1)"
      by (cases "save_image e w b ?ip")
    note sc = save_image_cases [OF s]
    note fc = flow_cases [OF assms Some s]
    show ?thesis
    proof (cases "r1 = Inr True")
      case True
      obtain r2 w2 where m: "write_metadata e w1 d ?mp = (r2, w2)"
        by (cases "write_metadata e w1 d ?mp")
      from write_metadata_cases [OF m] sc fc(2) [OF True] m show ?thesis by simp
    next
      case False
      from fc(1) [OF False] sc False show ?thesis by simp
    qed
  qed
  have q: "sanitize_filename (base_filename_of (image_url d)) = base_filename_of (image_url d)
              \<longleftrightarrow> set (base_filename_of (image_url d)) \<inter> set INVALID_FILENAME_CHARS = {}"
    by (auto simp: sanitize_filename_def filter_id_conv)
  from p q show ?thesis
    by (simp add: image_path_of_def metadata_path_of_def base_filename_of_def image_filename_of_def)
qed

theorem base_filename_unsanitized_witness:
  "opened (snd (get_current_comic (example_env (py ''comics/strip.png'') (\<lambda>p. IoOk)) empty_world))
     = [py ''strip.png'', py ''strip_metadata.txt'']
   \<and> sanitize_filename (py ''strip'') = py ''strip''
   \<and> set (py ''strip'') \<inter> set INVALID_FILENAME_CHARS = {}"
proof -
  let ?d = "\<lparr>image_url = QWANTZ_BASE_URL @ py ''comics/strip.png'', title = py ''T''\<rparr>"
  have ne: "''comics/strip.png'' \<noteq> []" by simp
  have x: "extract_comic_data
             (page_with (img_tag [py ''src'' \<mapsto> py ''comics/strip.png'', py ''title'' \<mapsto> py ''T'']))
           = Some ?d"
    by (rule example_extract) (simp add: py_def)
  have b: "base_filename_of (image_url ?d) = py ''strip''"
    "get_file_extension (image_url ?d) = py ''png''"
    by (simp_all add: strip_names)
  have c: "set (py ''strip'') \<inter> set INVALID_FILENAME_CHARS = {}"
    by (simp add: INVALID_FILENAME_CHARS_codes py_def ord_def)
  have j: "py ''strip'' @ py ''.'' @ py ''png'' = py ''strip.png''"
    "py ''strip'' @ py ''_metadata.txt'' = py ''strip_metadata.txt''"
    by (simp_all add: py_def)
  have w: "opened empty_world = []"
    by (simp add: empty_world_def)
  from base_filename_unsanitized
      [OF example_fetch x, of "\<lambda>p. IoOk" empty_world, unfolded b j] example_run(1) [OF ne] c w
  show ?thesis by auto
qed

text \<open>
  The claim as stated fails on a name with a forbidden character: for the source
  \<open>comics/100%dino.png\<close> the run writes \<open>100%dino.png\<close> and \<open>100%dino_metadata.txt\<close>,
  while the sanitized base filename is \<open>100dino\<close>.
\<close>

theorem base_filename_sanitized_counterexample:
  "fst (get_current_comic (example_env (py ''comics/100%dino.png'') (\<lambda>p. IoOk)) empty_world)
     = Inr True
   \<and> opened (snd (get_current_comic (example_env (py ''comics/100%dino.png'') (\<lambda>p. IoOk))
                     empty_world))
       = [py ''100%dino.png'', py ''100%dino_metadata.txt'']
   \<and> base_filename_of (QWANTZ_BASE_URL @ py ''comics/100%dino.png'') = py ''100%dino''
   \<and> sanitize_filename (base_filename_of (QWANTZ_BASE_URL @ py ''comics/100%dino.png''))
       = py ''100dino''
   \<and> py ''100%dino'' \<noteq> py ''100dino''"
proof -
  have ne: "''comics/100%dino.png'' \<noteq> []" by simp
  have s: "sanitize_filename (py ''100%dino'') = py ''100dino''"
    by (simp add: sanitize_filename_def INVALID_FILENAME_CHARS_codes py_def ord_def)
  have n: "py ''100%dino'' \<noteq> py ''100dino''"
    by (simp add: py_def ord_def)
  from example_run [OF ne] s n show ?thesis
    by (simp add: dino_paths dino_names)
qed

section \<open>The latest entry\<close>

lemma date_dirs_set:
  "set (date_dirs data_dir) = {d \<in> set (listdir data_dir). isdir data_dir d}"
  by (auto simp: date_dirs_def)

lemma date_dirs_descending: "sorted_wrt (\<lambda>a b. b \<le> a) (date_dirs data_dir)"
  by (simp add: date_dirs_def sorted_wrt_rev)

lemma date_dirs_hd:
  assumes "date_dirs data_dir \<noteq> []" and "d \<in> set (date_dirs data_dir)"
  shows "d \<le> hd (date_dirs data_dir)"
  using assms date_dirs_descending [of data_dir]
  by (cases "date_dirs data_dir") auto

subsection \<open>The pattern for the images\<close>

lemma png_pattern:
  "translate (py ''*.png'') = Some [Star, Lit 0x2E, Lit 0x70, Lit 0x6E, Lit 0x67]"
  by (simp add: py_def ord_def)

lemma glob1_png:
  "glob1 d (py ''*.png'') False
     = Inr (filter (match_items [Star, Lit 0x2E, Lit 0x70, Lit 0x6E, Lit 0x67])
              (filter (\<lambda>n. \<not> startswith n (py ''.'')) (listdir d)))"
proof -
  have "\<not> startswith (py ''*.png'') (py ''.'')"
    by (simp add: startswith_def py_def ord_def)
  then show ?thesis
    by (simp add: glob1_def fnmatch_filter_def png_pattern)
qed

lemma glob_png_plain:
  "\<not> has_magic date \<Longrightarrow>
   glob_png data_dir date
     = Inr (map (Pair date)
              (filter (match_items [Star, Lit 0x2E, Lit 0x70, Lit 0x6E, Lit 0x67])
                 (filter (\<lambda>n. \<not> startswith n (py ''.'')) (listdir (subdir data_dir date)))))"
  by (simp add: glob_png_def glob_in_def glob1_png)

text \<open>
  The pattern \<open>*.png\<close> matches the names that end in \<open>.png\<close>. So on a selected
  directory whose name has none of \<open>*\<close>, \<open>?\<close> and \<open>[\<close> the result is \<open>None\<close> when
  that directory lists no visible name ending in \<open>.png\<close>, and otherwise the entry of
  the first such name, under the name of the selected directory.
\<close>

lemma match_literals: "match_items (map Lit l) s = (s = l)"
proof (induction l arbitrary: s)
  case Nil
  then show ?case by simp
next
  case (Cons a l)
  then show ?case by (cases s) auto
qed

lemma match_suffix: "match_items (Star # map Lit l) s = (\<exists>a. s = a @ l)"
proof (induction s)
  case Nil
  show ?case using match_literals [of l "[]"] by (cases l) auto
next
  case (Cons c s)
  have "match_items (Star # map Lit l) (c # s)
          = (match_items (map Lit l) (c # s) \<or> match_items (Star # map Lit l) s)"
    by simp
  also have "\<dots> = (c # s = l \<or> (\<exists>a. s = a @ l))"
    by (simp add: match_literals Cons)
  also have "\<dots> = (\<exists>a. c # s = a @ l)"
    by (auto simp: Cons_eq_append_conv)
  finally show ?case .
qed

lemma endswith_suffix: "endswith s l = (\<exists>a. s = a @ l)"
proof
  assume "endswith s l"
  then have "s = take (length s - length l) s @ l"
    by (metis append_take_drop_id endswith_def)
  then show "\<exists>a. s = a @ l" by blast
next
  assume "\<exists>a. s = a @ l"
  then show "endswith s l" by (auto simp: endswith_def)
qed

lemma png_matches:
  "match_items [Star, Lit 0x2E, Lit 0x70, Lit 0x6E, Lit 0x67] n = endswith n (py ''.png'')"
proof -
  have "[Star, Lit 0x2E, Lit 0x70, Lit 0x6E, Lit 0x67] = Star # map Lit (py ''.png'')"
    by (simp add: py_def ord_def)
  then show ?thesis
    by (simp only: match_suffix endswith_suffix)
qed

lemma glob_png_plain_names:
  "\<not> has_magic date \<Longrightarrow>
   glob_png data_dir date
     = Inr (map (Pair date)
              (filter (\<lambda>n. \<not> startswith n (py ''.'') \<and> endswith n (py ''.png''))
                 (listdir (subdir data_dir date))))"
  by (simp add: glob_png_plain png_matches conj_commute)

lemma get_most_recent_comic_plain_name:
  fixes data_dir :: directory
  defines "date \<equiv> hd (date_dirs data_dir)"
  defines "pngs \<equiv> filter (\<lambda>n. \<not> startswith n (py ''.'') \<and> endswith n (py ''.png''))
                      (listdir (subdir data_dir date))"
  assumes "map_of project_root (py ''data'') = Some (Dir data_dir)"
    and "date_dirs data_dir \<noteq> []"
    and "\<not> has_magic date"
  shows "pngs = [] \<Longrightarrow> get_most_recent_comic reads project_root = Inr None"
    and "pngs \<noteq> [] \<Longrightarrow>
         get_most_recent_comic reads project_root
           = (case read_metadata_title reads (subdir data_dir date)
                     (path_stem (hd pngs) @ py ''_metadata.txt'') of
                Inl x \<Rightarrow> Inl x
              | Inr t \<Rightarrow>
                  Inr (Some (date, path_stem (hd pngs),
                             str_replace (py '' '') (py ''%20'')
                               (py ''data/'' @ date @ py ''/'' @ hd pngs),
                             t)))"
proof -
  have g: "glob_png data_dir (hd (date_dirs data_dir)) = Inr (map (Pair date) pngs)"
    using assms(5) unfolding date_def pngs_def by (rule glob_png_plain_names)
  show "get_most_recent_comic reads project_root = Inr None" if "pngs = []"
    using that assms(3,4) g
    by (simp add: get_most_recent_comic_def)
  show "get_most_recent_comic reads project_root
           = (case read_metadata_title reads (subdir data_dir date)
                     (path_stem (hd pngs) @ py ''_metadata.txt'') of
                Inl x \<Rightarrow> Inl x
              | Inr t \<Rightarrow>
                  Inr (Some (date, path_stem (hd pngs),
                             str_replace (py '' '') (py ''%20'')
                               (py ''data/'' @ date @ py ''/'' @ hd pngs),
                             t)))"
    if "pngs \<noteq> []"
    using that assms(3,4) g
    by (simp add: get_most_recent_comic_def Let_def hd_map date_def [symmetric])
qed

lemma date_plain: "\<not> has_magic (py ''2024-01-02'')"
  by (simp add: has_magic_def py_def ord_def)

lemma example_archive_resolved:
  "get_most_recent_comic reads example_archive
     = Inr (Some (py ''2024-01-02'', py ''second'', py ''data/2024-01-02/second.png'',
                  py ''No title available''))"
proof -
  let ?data = "[(py ''2024-01-01'', Dir [(py ''first.png'', File example_png)]),
                (py ''2024-01-02'', Dir [(py ''second.png'', File example_png)])]"
  have k: "py ''README.md'' \<noteq> py ''data''" by (simp add: py_def ord_def)
  have d: "date_dirs ?data = [py ''2024-01-02'', py ''2024-01-01'']"
    by (simp add: date_dirs_def listdir_def isdir_def py_def ord_def)
  have s: "subdir ?data (py ''2024-01-02'') = [(py ''second.png'', File example_png)]"
    by (simp add: subdir_def py_def ord_def)
  have g: "glob_png ?data (py ''2024-01-02'') = Inr [(py ''2024-01-02'', py ''second.png'')]"
    unfolding glob_png_plain [OF date_plain] s
    by (simp add: listdir_def startswith_def py_def ord_def)
  have st: "path_stem (py ''second.png'') = py ''second''"
    by (simp add: path_stem_def rfind_def py_def ord_def)
  have m: "read_metadata_title reads [(py ''second.png'', File example_png)]
             (py ''second'' @ py ''_metadata.txt'') = Inr (py ''No title available'')"
    by (simp add: read_metadata_title_def py_def ord_def)
  have r: "str_replace (py '' '') (py ''%20'') (py ''data/'' @ py ''2024-01-02'' @ py ''/'' @ py ''second.png'')
             = py ''data/2024-01-02/second.png''"
    by (simp add: startswith_def py_def ord_def)
  show ?thesis
    using k by (simp add: get_most_recent_comic_def example_archive_def d s g st m r)
qed

subsection \<open>A directory name with a bracket\<close>

lemma bracket_pattern:
  "translate (py ''[2]024-01-02'')
     = Some (Charset False [(0x32, 0x32)] # map Lit (py ''024-01-02''))"
  by (simp add: bracket_end_def str_find_def charset_def bracket_stuff_def escape_chars_def
      Let_def py_def ord_def)

lemma bracket_date_magic: "has_magic (py ''[2]024-01-02'')"
  by (simp add: has_magic_def py_def ord_def)

text \<open>
  C3 fails on a directory name that \<open>glob\<close> reads as a pattern. In \<open>bracket_archive\<close>
  the subdirectories in descending order are \<open>[2]024-01-02\<close> and \<open>2024-01-02\<close>, so the
  selected directory is \<open>[2]024-01-02\<close>, which holds no file with the image extension.
  \<open>get_most_recent_comic\<close> does not return \<open>None\<close>: line 32 of update\_readme.py hands
  the path of the directory to \<open>glob\<close> unescaped, \<open>[2]\<close> matches the character \<open>2\<close>, and
  the image returned is that of the other directory, under the date of the selected
  one.
\<close>

theorem latest_directory_read_as_pattern:
  "date_dirs (subdir bracket_archive (py ''data''))
     = [py ''[2]024-01-02'', py ''2024-01-02'']
   \<and> listdir (subdir (subdir bracket_archive (py ''data'')) (py ''[2]024-01-02''))
       = [py ''notes.txt'']
   \<and> get_most_recent_comic reads bracket_archive
       = Inr (Some (py ''[2]024-01-02'', py ''a'', py ''data/2024-01-02/a.png'',
                    py ''No title available''))"
proof -
  let ?data = "[(py ''2024-01-02'', Dir [(py ''a.png'', File example_png)]),
                (py ''[2]024-01-02'', Dir [(py ''notes.txt'', File [])])]"
  have k: "py ''[2]024-01-02'' \<noteq> py ''2024-01-02''"
    by (simp add: py_def ord_def)
  have b: "subdir bracket_archive (py ''data'') = ?data"
    by (simp add: bracket_archive_def subdir_def)
  have d: "date_dirs ?data = [py ''[2]024-01-02'', py ''2024-01-02'']"
    by (simp add: date_dirs_def listdir_def isdir_def py_def ord_def)
  have s: "subdir ?data (py ''[2]024-01-02'') = [(py ''notes.txt'', File [])]"
    "subdir ?data (py ''2024-01-02'') = [(py ''a.png'', File example_png)]"
    using k by (simp_all add: subdir_def)
  have g1: "glob1 ?data (py ''[2]024-01-02'') True = Inr [py ''2024-01-02'']"
    using k
    by (simp add: glob1_def fnmatch_filter_def bracket_pattern listdir_def isdir_def)
       (simp add: startswith_def py_def ord_def)
  have g2: "glob_in ?data (py ''2024-01-02'') = Inr [(py ''2024-01-02'', py ''a.png'')]"
    unfolding glob_in_def glob1_png s
    by (simp add: listdir_def startswith_def py_def ord_def)
  have g: "glob_png ?data (py ''[2]024-01-02'') = Inr [(py ''2024-01-02'', py ''a.png'')]"
    by (simp add: glob_png_def bracket_date_magic g1 g2)
  have st: "path_stem (py ''a.png'') = py ''a''"
    by (simp add: path_stem_def rfind_def py_def ord_def)
  have m: "read_metadata_title reads [(py ''notes.txt'', File [])]
             (py ''a'' @ py ''_metadata.txt'') = Inr (py ''No title available'')"
    by (simp add: read_metadata_title_def py_def ord_def)
  have r: "str_replace (py '' '') (py ''%20'') (py ''data/'' @ py ''2024-01-02'' @ py ''/'' @ py ''a.png'')
             = py ''data/2024-01-02/a.png''"
    by (simp add: startswith_def py_def ord_def)
  have l: "listdir [(py ''notes.txt'', File [])] = [py ''notes.txt'']"
    by (simp add: listdir_def)
  have "get_most_recent_comic reads bracket_archive
          = Inr (Some (py ''[2]024-01-02'', py ''a'', py ''data/2024-01-02/a.png'',
                       py ''No title available''))"
    by (simp add: get_most_recent_comic_def bracket_archive_def d s g st m r)
  then show ?thesis
    by (simp add: b d s l)
qed

section \<open>The title of the latest entry\<close>

subsection \<open>Reading back the first line\<close>

lemma universal_newlines_Cons:
  "c \<noteq> CR \<Longrightarrow> universal_newlines (c # s) = c # universal_newlines s"
  by (cases s) simp_all

lemma universal_newlines_first_line:
  "CR \<notin> set a \<Longrightarrow> universal_newlines (a @ LF # r) = a @ LF # universal_newlines r"
  by (induction a) (simp_all add: universal_newlines_Cons)

lemma iter_lines_first_line:
  "LF \<notin> set a \<Longrightarrow> iter_lines (a @ LF # r) = (a @ [LF]) # iter_lines r"
  by (induction a) simp_all

lemma str_replace_absent:
  "old \<noteq> [] \<Longrightarrow> \<not> contains s old \<Longrightarrow> str_replace old new s = s"
  by (induction s) simp_all

lemma contains_snoc:
  assumes "old \<noteq> []" and "x \<notin> set old" and "contains (s @ [x]) old"
  shows "contains s old"
  using assms(3)
proof (induction s)
  case Nil
  then have "take (length old) [x] = old"
    using assms(1) by (simp add: startswith_def)
  then have "old = [x]"
    using assms(1) by (cases old) (auto split: if_splits)
  with assms(2) show ?case by simp
next
  case (Cons c s)
  show ?case
  proof (cases "contains (s @ [x]) old")
    case True
    with Cons.IH show ?thesis by simp
  next
    case False
    with Cons.prems have t: "take (length old) (c # s @ [x]) = old"
      by (simp add: startswith_def)
    have "length old \<le> length (c # s)"
    proof (rule ccontr)
      assume "\<not> length old \<le> length (c # s)"
      then have "take (length old) (c # s @ [x]) = c # s @ [x]" by simp
      with t have "x \<in> set old" by (metis in_set_conv_decomp append_Cons)
      with assms(2) show False by simp
    qed
    then have "take (length old) (c # s @ [x]) = take (length old) (c # s)"
      by (metis append_Cons take_append diff_is_0_eq take_0 append_Nil2)
    with t show ?thesis by (simp add: startswith_def)
  qed
qed

lemma isspace_space: "isspace (ord CHR '' '')"
  by (simp add: isspace_def ord_def)

lemma isspace_LF: "isspace LF"
  by (simp add: isspace_def)

lemma strip_padded:
  assumes "t \<noteq> [] \<longrightarrow> \<not> isspace (hd t) \<and> \<not> isspace (last t)"
  shows "strip (ord CHR '' '' # t @ [LF]) = t"
proof (cases t)
  case Nil
  then show ?thesis by (simp add: strip_def isspace_space isspace_LF)
next
  case (Cons a u)
  with assms have h: "\<not> isspace a" and l: "\<not> isspace (last t)" by simp_all
  have "dropWhile isspace (ord CHR '' '' # t @ [LF]) = t @ [LF]"
    using h Cons by (simp add: isspace_space)
  moreover have "dropWhile isspace (rev (t @ [LF])) = rev t"
  proof -
    have "dropWhile isspace (rev t) = rev t"
    proof (cases "rev t")
      case Nil
      then show ?thesis by simp
    next
      case r: (Cons x xs)
      then have "x = last t" by (metis hd_rev list.sel(1))
      with l have "dropWhile isspace (x # xs) = x # xs" by simp
      then show ?thesis by (simp only: r)
    qed
    then show ?thesis by (simp add: isspace_LF)
  qed
  ultimately show ?thesis by (simp add: strip_def)
qed

lemma str_replace_prefix:
  "old \<noteq> [] \<Longrightarrow> str_replace old new (old @ s) = new @ str_replace old new s"
  by (cases old) (simp_all add: startswith_def)

lemma marker_chars:
  "CR \<notin> set (py ''Title: '')" "LF \<notin> set (py ''Title: '')" "LF \<notin> set (py ''Title:'')"
  "py ''Title:'' \<noteq> []" "py ''Title: '' = py ''Title:'' @ [ord CHR '' '']"
  "\<not> startswith (ord CHR '' '' # s) (py ''Title:'')"
  "startswith (py ''Title:'' @ s) (py ''Title:'')"
  by (simp_all add: py_def ord_def startswith_def)

lemma scan_title_written:
  assumes "t \<noteq> [] \<longrightarrow> \<not> isspace (hd t) \<and> \<not> isspace (last t)"
    and "LF \<notin> set t" and "CR \<notin> set t" and "\<not> contains t (py ''Title:'')"
  shows "scan_title (iter_lines (universal_newlines (py ''Title: '' @ t @ [LF] @ rest))) = Some t"
proof -
  let ?a = "py ''Title: '' @ t"
  have "universal_newlines (?a @ LF # rest) = ?a @ LF # universal_newlines rest"
    using assms(3) marker_chars(1) by (intro universal_newlines_first_line) simp
  moreover have "iter_lines (?a @ LF # universal_newlines rest)
                   = (?a @ [LF]) # iter_lines (universal_newlines rest)"
    using assms(2) marker_chars(2) by (intro iter_lines_first_line) simp
  ultimately have l: "iter_lines (universal_newlines (py ''Title: '' @ t @ LF # rest))
                        = (?a @ [LF]) # iter_lines (universal_newlines rest)"
    by simp
  have e: "?a @ [LF] = py ''Title:'' @ (ord CHR '' '' # t @ [LF])"
    by (simp add: marker_chars(5))
  have "\<not> contains (t @ [LF]) (py ''Title:'')"
    using contains_snoc [OF marker_chars(4) marker_chars(3), of t] assms(4) by blast
  then have n: "\<not> contains (ord CHR '' '' # t @ [LF]) (py ''Title:'')"
    by (simp add: marker_chars(6))
  have "str_replace (py ''Title:'') [] (?a @ [LF]) = ord CHR '' '' # t @ [LF]"
    unfolding e
    using str_replace_prefix [OF marker_chars(4), of "[]" "ord CHR '' '' # t @ [LF]"]
      str_replace_absent [OF marker_chars(4) n, of "[]"]
    by simp
  moreover have "startswith (?a @ [LF]) (py ''Title:'')"
    unfolding e by (rule marker_chars(7))
  ultimately show ?thesis
    using strip_padded [OF assms(1)] by (simp add: l)
qed

subsection \<open>Reading piece by piece\<close>

text \<open>
  On a file that decodes as a whole the loop finds, whatever the reads, what it finds
  in the lines of the whole text: the text decoded so far is a beginning of the text,
  its complete lines are the first lines of the text, and the loop stops on them only
  where it stops on the whole.
\<close>

lemma universal_newlines_append:
  "(q \<noteq> [] \<and> last q = CR \<longrightarrow> r = [] \<or> hd r \<noteq> LF) \<Longrightarrow>
   universal_newlines (q @ r) = universal_newlines q @ universal_newlines r"
proof (induction q rule: universal_newlines.induct)
  case 1
  then show ?case by simp
next
  case (2 c)
  then show ?case by (cases r) auto
next
  case (3 c d cs)
  then show ?case by auto
qed

lemma held_back_append:
  "\<exists>r. p @ s = held_back p @ r
       \<and> (held_back p \<noteq> [] \<and> last (held_back p) = CR \<longrightarrow> r = [] \<or> hd r \<noteq> LF)"
proof (cases "p \<noteq> [] \<and> last p = CR")
  case True
  then have "p @ s = held_back p @ (CR # s)"
    by (simp add: held_back_def) (metis append_butlast_last_id append_Cons append_Nil append_assoc)
  then show ?thesis by (intro exI [of _ "CR # s"]) simp
next
  case False
  then have "held_back p = p" by (auto simp: held_back_def)
  with False show ?thesis by (intro exI [of _ s]) auto
qed

lemma iter_lines_first_nonempty: "iter_lines x = l # ls \<Longrightarrow> l \<noteq> []"
  by (cases x) (auto split: if_splits list.splits)

lemma iter_lines_first_complete:
  "iter_lines x = l # l' # ls \<Longrightarrow> last l = LF"
proof (induction x arbitrary: l l' ls)
  case Nil
  then show ?case by simp
next
  case (Cons c cs)
  show ?case
  proof (cases "c = LF")
    case True
    with Cons.prems show ?thesis by auto
  next
    case False
    with Cons.prems obtain l0 where l0: "iter_lines cs = l0 # l' # ls" "l = c # l0"
      by (auto split: list.splits)
    from Cons.IH [OF l0(1)] iter_lines_first_nonempty [OF l0(1)] l0(2) show ?thesis
      by simp
  qed
qed

lemma complete_lines_first:
  "\<exists>zs. iter_lines (x @ y) = complete_lines x @ zs"
proof (induction x)
  case Nil
  then show ?case by (simp add: complete_lines_def)
next
  case (Cons c cs)
  then obtain zs where zs: "iter_lines (cs @ y) = complete_lines cs @ zs" by blast
  show ?case
  proof (cases "c = LF")
    case True
    then show ?thesis using zs by (simp add: complete_lines_def)
  next
    case False
    show ?thesis
    proof (cases "iter_lines cs")
      case Nil
      with False show ?thesis by (simp add: complete_lines_def)
    next
      case (Cons l ls)
      note ne = iter_lines_first_nonempty [OF Cons]
      show ?thesis
      proof (cases "last l = LF")
        case True
        with Cons ne zs False show ?thesis
          by (simp add: complete_lines_def)
      next
        case nl: False
        have "ls = []"
        proof (cases ls)
          case Nil
          then show ?thesis .
        next
          case c2: (Cons l' ls')
          with Cons iter_lines_first_complete [of cs l l' ls'] nl show ?thesis by simp
        qed
        with Cons ne nl False show ?thesis
          by (simp add: complete_lines_def)
      qed
    qed
  qed
qed

lemma scan_title_append: "scan_title xs = Some t \<Longrightarrow> scan_title (xs @ ys) = Some t"
  by (induction xs) (auto split: if_splits)

lemma scan_title_so_far:
  assumes "decode_utf8 (a @ b) = Some whole"
  shows "\<exists>part. decode_utf8_so_far a = Some part
           \<and> (\<forall>t. scan_title (complete_lines (universal_newlines (held_back part))) = Some t
                 \<longrightarrow> scan_title (iter_lines (universal_newlines whole)) = Some t)"
proof -
  from decode_utf8_so_far_prefix [OF assms] obtain n where
    n: "decode_utf8_so_far a = Some (take n whole)" by blast
  from held_back_append [of "take n whole" "drop n whole"] obtain r where
    r: "whole = held_back (take n whole) @ r"
       "held_back (take n whole) \<noteq> [] \<and> last (held_back (take n whole)) = CR
          \<longrightarrow> r = [] \<or> hd r \<noteq> LF"
    by auto
  have "universal_newlines whole
          = universal_newlines (held_back (take n whole)) @ universal_newlines r"
    using universal_newlines_append [OF r(2)] r(1) by simp
  with complete_lines_first
    [of "universal_newlines (held_back (take n whole))" "universal_newlines r"]
  obtain zs where
    "iter_lines (universal_newlines whole)
       = complete_lines (universal_newlines (held_back (take n whole))) @ zs"
    by auto
  with n show ?thesis
    by (auto simp: scan_title_append)
qed

lemma read_title_decodable:
  "decode_utf8 (seen @ concat chunks) = Some whole \<Longrightarrow>
   read_title chunks seen = Inr (scan_title (iter_lines (universal_newlines whole)))"
proof (induction chunks arbitrary: seen)
  case Nil
  then show ?case by simp
next
  case (Cons c chunks)
  from Cons.prems have w: "decode_utf8 ((seen @ c) @ concat chunks) = Some whole" by simp
  from scan_title_so_far [OF w] obtain part where
    p: "decode_utf8_so_far (seen @ c) = Some part"
       "\<And>t. scan_title (complete_lines (universal_newlines (held_back part))) = Some t
          \<Longrightarrow> scan_title (iter_lines (universal_newlines whole)) = Some t"
    by blast
  show ?case
  proof (cases "scan_title (complete_lines (universal_newlines (held_back part)))")
    case None
    with p(1) Cons.IH [OF w] show ?thesis by simp
  next
    case (Some t)
    with p show ?thesis by simp
  qed
qed

lemma read_metadata_title_decodable:
  assumes "map_of d name = Some (File m)" and "decode_utf8 m = Some whole"
  shows "read_metadata_title reads d name
           = Inr (case scan_title (iter_lines (universal_newlines whole)) of
                    None \<Rightarrow> py ''No title available''
                  | Some t \<Rightarrow> t)"
proof -
  have "read_title (split_reads reads m) []
          = Inr (scan_title (iter_lines (universal_newlines whole)))"
    using assms(2) by (intro read_title_decodable) (simp add: concat_split_reads)
  with assms(1) show ?thesis
    by (simp add: read_metadata_title_def split: option.split)
qed

lemma read_metadata_title_written:
  assumes "t \<noteq> [] \<longrightarrow> \<not> isspace (hd t) \<and> \<not> isspace (last t)"
    and "LF \<notin> set t" and "CR \<notin> set t" and "\<not> contains t (py ''Title:'')"
    and "encode_utf8 (py ''Title: '' @ t @ [LF] @ rest) = Some m"
    and "map_of dir name = Some (File m)"
  shows "read_metadata_title reads dir name = Inr t"
  using read_metadata_title_decodable [OF assms(6) decode_utf8_encode_utf8 [OF assms(5)]]
    scan_title_written [OF assms(1-4), of rest]
  by simp

lemma successful_run_metadata:
  assumes "fetch_webpage e QWANTZ_BASE_URL = Some soup"
    and "extract_comic_data soup = Some d"
    and "fst (get_current_comic e w) = Inr True"
  shows "\<exists>m. encode_utf8 (title_line d @ image_url_line d) = Some m
           \<and> files (snd (get_current_comic e w)) (metadata_path_of (image_url d)) = Some m"
proof (cases "download_image e (image_url d)")
  case None
  with assms show ?thesis by (simp add: get_current_comic_def)
next
  case (Some b)
  obtain r1 w1 where s: "save_image e w b (image_path_of (image_url d)) = (r1, w1)"
    by (cases "save_image e w b (image_path_of (image_url d))")
  note fc = flow_cases [OF assms(1,2) Some s]
  have r1: "r1 = Inr True"
    using fc(1) assms(3) by (cases "r1 = Inr True") (auto simp: save_image_def)
  obtain r2 w2 where m: "write_metadata e w1 d (metadata_path_of (image_url d)) = (r2, w2)"
    by (cases "write_metadata e w1 d (metadata_path_of (image_url d))")
  with fc(2) [OF r1] assms(3) have "r2 = Inr True" by simp
  with write_metadata_cases [OF m] obtain l1 l2 where
    "encode_utf8 (title_line d) = Some l1" "encode_utf8 (image_url_line d) = Some l2"
    "files w2 (metadata_path_of (image_url d)) = Some (l1 @ l2)"
    by blast
  with fc(2) [OF r1] m encode_utf8_append show ?thesis by simp
qed

lemma archive_with_metadata_resolved:
  "get_most_recent_comic reads (archive_with_metadata m)
     = (case read_metadata_title reads
               [(py ''foo.png'', File example_png), (py ''foo_metadata.txt'', File m)]
               (py ''foo_metadata.txt'') of
          Inl x \<Rightarrow> Inl x
        | Inr t \<Rightarrow> Inr (Some (py ''2024-01-02'', py ''foo'', py ''data/2024-01-02/foo.png'', t)))"
proof -
  let ?dir = "[(py ''foo.png'', File example_png), (py ''foo_metadata.txt'', File m)]"
  have d: "date_dirs [(py ''2024-01-02'', Dir ?dir)] = [py ''2024-01-02'']"
    by (simp add: date_dirs_def listdir_def isdir_def)
  have s: "subdir [(py ''2024-01-02'', Dir ?dir)] (py ''2024-01-02'') = ?dir"
    by (simp add: subdir_def)
  have g: "glob_png [(py ''2024-01-02'', Dir ?dir)] (py ''2024-01-02'')
             = Inr [(py ''2024-01-02'', py ''foo.png'')]"
    unfolding glob_png_plain [OF date_plain] s
    by (simp add: listdir_def startswith_def py_def ord_def)
  have st: "path_stem (py ''foo.png'') = py ''foo''"
    by (simp add: path_stem_def rfind_def py_def ord_def)
  have n: "py ''foo'' @ py ''_metadata.txt'' = py ''foo_metadata.txt''"
    by (simp add: py_def)
  have r: "str_replace (py '' '') (py ''%20'') (py ''data/'' @ py ''2024-01-02'' @ py ''/'' @ py ''foo.png'')
             = py ''data/2024-01-02/foo.png''"
    by (simp add: startswith_def py_def ord_def)
  show ?thesis
    by (simp add: get_most_recent_comic_def archive_with_metadata_def Let_def d s g st n r
        split: sum.split)
qed

lemma foo_names:
  "metadata_path_of (QWANTZ_BASE_URL @ py ''comics/foo.png'') = py ''foo_metadata.txt''"
  by (simp add: metadata_path_of_def base_filename_of_def image_filename_of_def
      str_rsplit1_def QWANTZ_BASE_URL_def py_def ord_def)

subsection \<open>A title that contains the marker\<close>

text \<open>
  Without the metadata file, or without a line that starts with the marker, the title
  is the fallback. On a first marker line that has no second \<open>Title:\<close> in it the loop
  returns the remainder of the line, trimmed.
\<close>

lemma scan_title_no_marker:
  "\<forall>l \<in> set ls. \<not> startswith l (py ''Title:'') \<Longrightarrow> scan_title ls = None"
  by (induction ls) simp_all

lemma read_metadata_title_fallback:
  "map_of d name = None \<Longrightarrow>
   read_metadata_title reads d name = Inr (py ''No title available'')"
  "map_of d name = Some (File m) \<Longrightarrow> decode_utf8 m = Some whole \<Longrightarrow>
   \<forall>l \<in> set (iter_lines (universal_newlines whole)). \<not> startswith l (py ''Title:'') \<Longrightarrow>
   read_metadata_title reads d name = Inr (py ''No title available'')"
  by (simp add: read_metadata_title_def)
     (simp add: read_metadata_title_decodable scan_title_no_marker)

lemma scan_title_single_marker:
  assumes "startswith line (py ''Title:'')"
    and "\<not> contains (drop (length (py ''Title:'')) line) (py ''Title:'')"
  shows "scan_title (line # rest) = Some (title_after_marker line)"
proof -
  from assms(1) have e: "line = py ''Title:'' @ drop (length (py ''Title:'')) line"
    by (metis append_take_drop_id startswith_def)
  have "str_replace (py ''Title:'') [] line = drop (length (py ''Title:'')) line"
    using str_replace_prefix [OF marker_chars(4), of "[]" "drop (length (py ''Title:'')) line"]
      str_replace_absent [OF marker_chars(4) assms(2), of "[]"] e
    by simp
  with assms(1) show ?thesis
    by (simp add: title_after_marker_def)
qed

lemma marker_metadata_written:
  "encode_utf8 (title_line \<lparr>image_url = QWANTZ_BASE_URL @ py ''comics/foo.png'',
                             title = py ''A Title: B''\<rparr>
                @ image_url_line \<lparr>image_url = QWANTZ_BASE_URL @ py ''comics/foo.png'',
                                   title = py ''A Title: B''\<rparr>)
     = Some marker_metadata"
  by (simp add: encode_utf8_def title_line_def image_url_line_def QWANTZ_BASE_URL_def
      scalar_value_def utf8_char_def marker_metadata_def pyb_def py_def ord_def)

text \<open>
  C7 fails on a title that contains the marker. The scraper writes \<open>marker_metadata\<close>
  for the title \<open>A Title: B\<close>; the remainder of its first line after the marker,
  trimmed, is \<open>A Title: B\<close>, but \<open>get_most_recent_comic\<close> returns \<open>A  B\<close>: line 50
  of update\_readme.py removes every occurrence of \<open>Title:\<close> from the line.
\<close>

theorem title_with_marker_inside:
  "get_most_recent_comic reads
     (archive_with_metadata marker_metadata)
     = Inr (Some (py ''2024-01-02'', py ''foo'', py ''data/2024-01-02/foo.png'', py ''A  B''))
   \<and> title_after_marker (py ''Title: A Title: B'' @ [LF]) = py ''A Title: B''
   \<and> py ''A  B'' \<noteq> py ''A Title: B''"
proof -
  have k: "py ''foo.png'' \<noteq> py ''foo_metadata.txt''"
    by (simp add: py_def ord_def)
  have d: "decode_utf8 marker_metadata
           = Some (py ''Title: A Title: B'' @ [LF]
                   @ py ''Image URL: https://www.qwantz.com/comics/foo.png'' @ [LF])"
    by (simp add: marker_metadata_def decode_utf8_def pyb_def py_def ord_def)
  have l: "iter_lines (universal_newlines (py ''Title: A Title: B''
                   @ LF # py ''Image URL: https://www.qwantz.com/comics/foo.png'' @ [LF]))
           = [py ''Title: A Title: B'' @ [LF],
              py ''Image URL: https://www.qwantz.com/comics/foo.png'' @ [LF]]"
    by (simp add: py_def ord_def)
  have s: "startswith (py ''Title: A Title: B'' @ [LF]) (py ''Title:'')"
    by (simp add: startswith_def py_def)
  have r: "str_replace (py ''Title:'') [] (py ''Title: A Title: B'' @ [LF]) = py '' A  B'' @ [LF]"
    by (simp add: startswith_def py_def ord_def)
  have p: "strip (py '' A  B'' @ [LF]) = py ''A  B''"
    by (simp add: strip_def isspace_def py_def ord_def)
  have f: "map_of [(py ''foo.png'', File example_png),
                   (py ''foo_metadata.txt'', File marker_metadata)]
             (py ''foo_metadata.txt'') = Some (File marker_metadata)"
    using k by simp
  have a: "read_metadata_title reads
             [(py ''foo.png'', File example_png),
              (py ''foo_metadata.txt'', File marker_metadata)]
             (py ''foo_metadata.txt'') = Inr (py ''A  B'')"
    unfolding read_metadata_title_decodable [OF f d]
    by (simp add: l s r p)
  have b: "title_after_marker (py ''Title: A Title: B'' @ [LF]) = py ''A Title: B''"
    by (simp add: title_after_marker_def strip_def isspace_def py_def ord_def)
  have c: "py ''A  B'' \<noteq> py ''A Title: B''"
    by (simp add: py_def ord_def)
  from a b c show ?thesis
    by (simp add: archive_with_metadata_resolved)
qed

subsection \<open>From the writer to the resolver\<close>

lemma titled_fetch:
  "fetch_webpage (titled_env t) QWANTZ_BASE_URL
     = Some (page_with (img_tag [py ''src'' \<mapsto> py ''comics/foo.png'', py ''title'' \<mapsto> t]))"
  by (simp add: fetch_webpage_def titled_env_def)

lemma titled_extract:
  "extract_comic_data
     (page_with (img_tag [py ''src'' \<mapsto> py ''comics/foo.png'', py ''title'' \<mapsto> t]))
     = Some \<lparr>image_url = QWANTZ_BASE_URL @ py ''comics/foo.png'', title = t\<rparr>"
proof -
  have k: "py ''src'' \<noteq> py ''title''" "py ''comics/foo.png'' \<noteq> []"
    by (simp_all add: py_def ord_def)
  moreover have "tag_attrs (img_tag x) = x" for x
    by (simp add: img_tag_def)
  ultimately show ?thesis
    by (simp add: extract_comic_data_def soup_find_page_with)
qed

lemma titled_run:
  assumes "encode_utf8 t \<noteq> None"
  shows "fst (get_current_comic (titled_env t) empty_world) = Inr True"
proof -
  let ?d = "\<lparr>image_url = QWANTZ_BASE_URL @ py ''comics/foo.png'', title = t\<rparr>"
  have d: "download_image (titled_env t) (image_url ?d) = Some example_png"
    by (simp add: download_image_def titled_env_def)
  have i: "io (titled_env t) = (\<lambda>p. IoOk)"
    by (simp add: titled_env_def)
  have l: "encode_utf8 (title_line ?d) \<noteq> None" "encode_utf8 (image_url_line ?d) \<noteq> None"
    using assms
    by (simp_all add: title_line_def image_url_line_def QWANTZ_BASE_URL_def
        encode_utf8_None_append encode_utf8_ascii encode_utf8_LF)
  note u = get_current_comic_unfold [OF titled_fetch titled_extract d, of empty_world]
  show ?thesis
    using l by (auto simp: u save_image_def write_metadata_def i Let_def)
qed

lemma titled_metadata:
  assumes "encode_utf8 t \<noteq> None"
  shows "\<exists>m. files (snd (get_current_comic (titled_env t) empty_world)) (py ''foo_metadata.txt'')
               = Some m
             \<and> decode_utf8 m = Some (py ''Title: '' @ t @ [LF]
                    @ py ''Image URL: https://www.qwantz.com/comics/foo.png'' @ [LF])"
proof -
  let ?d = "\<lparr>image_url = QWANTZ_BASE_URL @ py ''comics/foo.png'', title = t\<rparr>"
  from successful_run_metadata [OF titled_fetch titled_extract titled_run [OF assms]]
  obtain m where
    m: "encode_utf8 (title_line ?d @ image_url_line ?d) = Some m"
       "files (snd (get_current_comic (titled_env t) empty_world)) (py ''foo_metadata.txt'')
          = Some m"
    by (auto simp: foo_names)
  have "title_line ?d @ image_url_line ?d
          = py ''Title: '' @ t @ [LF]
            @ py ''Image URL: https://www.qwantz.com/comics/foo.png'' @ [LF]"
    by (simp add: title_line_def image_url_line_def QWANTZ_BASE_URL_def py_def)
  with decode_utf8_encode_utf8 [OF m(1)] m(2) show ?thesis by simp
qed

text \<open>
  C10, as amended. Let a run of \<open>get_current_comic\<close> succeed for a record whose title
  has no white space at either end, no line feed, no carriage return and no occurrence
  of \<open>Title:\<close>. Reading the title from a directory whose metadata file holds what that
  run wrote gives exactly the title, however the reads of the file go; and
  \<open>get_most_recent_comic\<close> on a project whose latest directory is such a directory
  returns an entry with exactly that title.
\<close>

theorem title_round_trip:
  assumes "fetch_webpage e QWANTZ_BASE_URL = Some soup"
    and "extract_comic_data soup = Some d"
    and "fst (get_current_comic e w) = Inr True"
    and "title d \<noteq> [] \<longrightarrow> \<not> isspace (hd (title d)) \<and> \<not> isspace (last (title d))"
    and "LF \<notin> set (title d)" and "CR \<notin> set (title d)"
    and "\<not> contains (title d) (py ''Title:'')"
    and "map_of dir name
           = map_option File (files (snd (get_current_comic e w)) (metadata_path_of (image_url d)))"
  shows "read_metadata_title reads dir name = Inr (title d)
         \<and> (map_of project_root (py ''data'') = Some (Dir data_dir)
              \<and> date_dirs data_dir \<noteq> []
              \<and> subdir data_dir (hd (date_dirs data_dir)) = dir
              \<and> glob_png data_dir (hd (date_dirs data_dir)) = Inr png_files
              \<and> png_files \<noteq> []
              \<and> path_stem (snd (hd png_files)) @ py ''_metadata.txt'' = name
             \<longrightarrow> (\<exists>date f p. get_most_recent_comic reads project_root
                                = Inr (Some (date, f, p, title d))))"
proof -
  from successful_run_metadata [OF assms(1-3)] obtain m where
    m: "encode_utf8 (title_line d @ image_url_line d) = Some m"
       "files (snd (get_current_comic e w)) (metadata_path_of (image_url d)) = Some m"
    by blast
  from m(1) have "encode_utf8 (py ''Title: '' @ title d @ [LF] @ image_url_line d) = Some m"
    by (simp add: title_line_def)
  moreover from m(2) assms(8) have "map_of dir name = Some (File m)" by simp
  ultimately have r: "read_metadata_title reads dir name = Inr (title d)"
    using assms(4-7) by (intro read_metadata_title_written)
  then show ?thesis
    by (auto simp: get_most_recent_comic_def Let_def)
qed

theorem title_round_trip_witness:
  "fst (get_current_comic (example_env (py ''comics/foo.png'') (\<lambda>p. IoOk)) empty_world) = Inr True
   \<and> get_most_recent_comic [3, 5]
        (archive_with_metadata
           (the (files (snd (get_current_comic (example_env (py ''comics/foo.png'') (\<lambda>p. IoOk))
                               empty_world))
                   (py ''foo_metadata.txt''))))
       = Inr (Some (py ''2024-01-02'', py ''foo'', py ''data/2024-01-02/foo.png'', py ''T''))"
proof -
  let ?e = "example_env (py ''comics/foo.png'') (\<lambda>p. IoOk)"
  let ?d = "\<lparr>image_url = QWANTZ_BASE_URL @ py ''comics/foo.png'', title = py ''T''\<rparr>"
  let ?m = "the (files (snd (get_current_comic ?e empty_world)) (py ''foo_metadata.txt''))"
  let ?dir = "[(py ''foo.png'', File example_png), (py ''foo_metadata.txt'', File ?m)]"
  have ne: "''comics/foo.png'' \<noteq> []" by simp
  have x: "extract_comic_data
             (page_with (img_tag [py ''src'' \<mapsto> py ''comics/foo.png'', py ''title'' \<mapsto> py ''T'']))
           = Some ?d"
    by (rule example_extract) (simp add: py_def)
  note ok = example_run(1) [OF ne]
  from successful_run_metadata [OF example_fetch x ok] obtain m where
    m: "files (snd (get_current_comic ?e empty_world)) (py ''foo_metadata.txt'') = Some m"
    by (auto simp: foo_names)
  have k: "py ''foo.png'' \<noteq> py ''foo_metadata.txt''"
    by (simp add: py_def ord_def)
  have t: "title ?d \<noteq> [] \<longrightarrow> \<not> isspace (hd (title ?d)) \<and> \<not> isspace (last (title ?d))"
    "LF \<notin> set (title ?d)" "CR \<notin> set (title ?d)" "\<not> contains (title ?d) (py ''Title:'')"
    by (simp_all add: isspace_def startswith_def py_def ord_def)
  have f: "map_of ?dir (py ''foo_metadata.txt'')
             = map_option File (files (snd (get_current_comic ?e empty_world))
                                  (metadata_path_of (image_url ?d)))"
    using k m by (simp add: foo_names)
  from title_round_trip [OF example_fetch x ok t f, of "[3, 5]"]
  have "read_metadata_title [3, 5] ?dir (py ''foo_metadata.txt'') = Inr (py ''T'')"
    by simp
  with ok show ?thesis
    by (simp add: archive_with_metadata_resolved)
qed

text \<open>
  Without the condition on the carriage return the round trip fails. The title
  \<open>A\<close>, carriage return, \<open>B\<close> has no white space at either end, no line feed and no
  \<open>Title:\<close>; the run succeeds and writes the carriage return as it is; the reader ends
  the first line at it, and the title read back is \<open>A\<close>.
\<close>

theorem title_round_trip_counterexample:
  "fst (get_current_comic (titled_env (py ''A'' @ [CR] @ py ''B'')) empty_world) = Inr True
   \<and> get_most_recent_comic []
        (archive_with_metadata
           (the (files (snd (get_current_comic (titled_env (py ''A'' @ [CR] @ py ''B''))
                               empty_world))
                   (py ''foo_metadata.txt''))))
       = Inr (Some (py ''2024-01-02'', py ''foo'', py ''data/2024-01-02/foo.png'', py ''A''))
   \<and> py ''A'' \<noteq> py ''A'' @ [CR] @ py ''B''
   \<and> LF \<notin> set (py ''A'' @ [CR] @ py ''B'')
   \<and> \<not> isspace (hd (py ''A'' @ [CR] @ py ''B''))
   \<and> \<not> isspace (last (py ''A'' @ [CR] @ py ''B''))
   \<and> \<not> contains (py ''A'' @ [CR] @ py ''B'') (py ''Title:'')"
proof -
  let ?t = "py ''A'' @ [CR] @ py ''B''"
  let ?m = "the (files (snd (get_current_comic (titled_env ?t) empty_world))
                   (py ''foo_metadata.txt''))"
  let ?dir = "[(py ''foo.png'', File example_png), (py ''foo_metadata.txt'', File ?m)]"
  have e: "encode_utf8 ?t \<noteq> None"
    by (simp add: encode_utf8_def scalar_value_def py_def ord_def)
  from titled_metadata [OF e] have
    m: "decode_utf8 ?m = Some (py ''Title: '' @ ?t @ [LF]
                    @ py ''Image URL: https://www.qwantz.com/comics/foo.png'' @ [LF])"
    by auto
  have k: "py ''foo.png'' \<noteq> py ''foo_metadata.txt''"
    by (simp add: py_def ord_def)
  then have f: "map_of ?dir (py ''foo_metadata.txt'') = Some (File ?m)"
    by simp
  have l: "iter_lines (universal_newlines (py ''Title: '' @ py ''A'' @ CR # py ''B''
                    @ LF # py ''Image URL: https://www.qwantz.com/comics/foo.png'' @ [LF]))
           = [py ''Title: A'' @ [LF], py ''B'' @ [LF],
              py ''Image URL: https://www.qwantz.com/comics/foo.png'' @ [LF]]"
    by (simp add: py_def ord_def)
  have s: "startswith (py ''Title: A'' @ [LF]) (py ''Title:'')"
    by (simp add: startswith_def py_def)
  have r: "str_replace (py ''Title:'') [] (py ''Title: A'' @ [LF]) = py '' A'' @ [LF]"
    by (simp add: startswith_def py_def ord_def)
  have p: "strip (py '' A'' @ [LF]) = py ''A''"
    by (simp add: strip_def isspace_def py_def ord_def)
  have a: "read_metadata_title [] ?dir (py ''foo_metadata.txt'') = Inr (py ''A'')"
    unfolding read_metadata_title_decodable [OF f m]
    by (simp add: l s r p)
  have c: "py ''A'' \<noteq> ?t" "LF \<notin> set ?t" "\<not> isspace (hd ?t)" "\<not> isspace (last ?t)"
    "\<not> contains ?t (py ''Title:'')"
    by (simp_all add: isspace_def startswith_def py_def ord_def)
  from titled_run [OF e] a c show ?thesis
    by (simp add: archive_with_metadata_resolved)
qed

section \<open>The summary document\<close>

lemma readme_not_data: "py ''README.md'' \<noteq> py ''data''"
  by (simp add: py_def ord_def)

lemma get_most_recent_comic_readme:
  "get_most_recent_comic reads (AList.update (py ''README.md'') v project_root)
     = get_most_recent_comic reads project_root"
  using readme_not_data
  by (simp add: get_most_recent_comic_def update_conv')

text \<open>
  C9. When \<open>get_most_recent_comic\<close> returns \<open>None\<close>, \<open>update_readme\<close> returns without
  writing: the project directory, \<open>README.md\<close> included, is what it was. When an entry
  is resolved and \<open>update_readme\<close> returns normally, \<open>README.md\<close> holds exactly the
  encoded template for that entry and every other name of the project directory is
  unchanged. The resolved entry does not depend on what \<open>README.md\<close> held before, so
  nothing of the prior content is in the new one.
\<close>

theorem update_readme_frame:
  "(get_most_recent_comic reads project_root = Inr None
      \<longrightarrow> update_readme reads outcome project_root = (Inr (), project_root))
   \<and> (\<forall>date filename image_path t.
         get_most_recent_comic reads project_root = Inr (Some (date, filename, image_path, t))
         \<and> fst (update_readme reads outcome project_root) = Inr ()
         \<longrightarrow> (\<exists>b. encode_utf8 (readme_content date filename image_path t) = Some b
                  \<and> snd (update_readme reads outcome project_root)
                      = AList.update (py ''README.md'') (File b) project_root
                  \<and> map_of (snd (update_readme reads outcome project_root)) (py ''README.md'')
                      = Some (File b)
                  \<and> (\<forall>n. n \<noteq> py ''README.md''
                        \<longrightarrow> map_of (snd (update_readme reads outcome project_root)) n
                            = map_of project_root n)))
   \<and> get_most_recent_comic reads (AList.update (py ''README.md'') (File old) project_root)
       = get_most_recent_comic reads project_root"
proof -
  have a: "update_readme reads outcome project_root = (Inr (), project_root)"
    if "get_most_recent_comic reads project_root = Inr None"
    using that by (simp add: update_readme_def)
  have b: "\<exists>b. encode_utf8 (readme_content date filename image_path t) = Some b
             \<and> snd (update_readme reads outcome project_root)
                 = AList.update (py ''README.md'') (File b) project_root
             \<and> map_of (snd (update_readme reads outcome project_root)) (py ''README.md'')
                 = Some (File b)
             \<and> (\<forall>n. n \<noteq> py ''README.md''
                   \<longrightarrow> map_of (snd (update_readme reads outcome project_root)) n
                       = map_of project_root n)"
    if "get_most_recent_comic reads project_root = Inr (Some (date, filename, image_path, t))"
      and "fst (update_readme reads outcome project_root) = Inr ()"
    for date filename image_path t
    using that
    by (auto simp: update_readme_def Let_def update_conv'
        split: if_splits io_outcome.splits option.splits)
  from a b get_most_recent_comic_readme [of reads "File old" project_root]
  show ?thesis by blast
qed

lemma encode_utf8_None_Cons:
  "(encode_utf8 (c # s) = None) = (\<not> scalar_value c \<or> encode_utf8 s = None)"
  by (auto simp: encode_utf8_def)

lemma example_readme_encodable:
  "encode_utf8 (readme_content (py a) (py b) (py c) (py d)) \<noteq> None"
proof -
  have "scalar_value LF" "encode_utf8 [] = Some []"
    by (simp_all add: scalar_value_def encode_utf8_def)
  then show ?thesis
    by (simp add: readme_content_def encode_utf8_None_append encode_utf8_None_Cons
        encode_utf8_ascii encode_utf8_LF)
qed

theorem update_readme_frame_witness:
  "update_readme [] IoOk [(py ''README.md'', File (pyb ''# old'')), (py ''src'', Dir [])]
     = (Inr (), [(py ''README.md'', File (pyb ''# old'')), (py ''src'', Dir [])])
   \<and> fst (update_readme [] IoOk example_archive) = Inr ()
   \<and> map_option File
        (encode_utf8 (readme_content (py ''2024-01-02'') (py ''second'')
                        (py ''data/2024-01-02/second.png'') (py ''No title available'')))
       = map_of (snd (update_readme [] IoOk example_archive)) (py ''README.md'')
   \<and> encode_utf8 (readme_content (py ''2024-01-02'') (py ''second'')
                     (py ''data/2024-01-02/second.png'') (py ''No title available'')) \<noteq> None
   \<and> map_of (snd (update_readme [] IoOk example_archive)) (py ''src'') = Some (Dir [])"
proof -
  let ?r = "[(py ''README.md'', File (pyb ''# old'')), (py ''src'', Dir [])]"
  have k: "py ''README.md'' \<noteq> py ''data''" "py ''src'' \<noteq> py ''data''"
    "py ''src'' \<noteq> py ''README.md''"
    by (simp_all add: py_def ord_def)
  have n: "get_most_recent_comic [] ?r = Inr None"
    using k by (simp add: get_most_recent_comic_def)
  have p1: "update_readme [] IoOk ?r = (Inr (), ?r)"
    using update_readme_frame [of "[]" ?r IoOk] n by simp
  have i: "\<not> isdir example_archive (py ''README.md'')"
    by (simp add: isdir_def example_archive_def)
  have ok: "fst (update_readme [] IoOk example_archive) = Inr ()"
    using i example_readme_encodable
      [of "''2024-01-02''" "''second''" "''data/2024-01-02/second.png''" "''No title available''"]
    by (auto simp: update_readme_def example_archive_resolved Let_def)
  from update_readme_frame [of "[]" example_archive IoOk] example_archive_resolved ok
  obtain b where b:
    "encode_utf8 (readme_content (py ''2024-01-02'') (py ''second'')
                    (py ''data/2024-01-02/second.png'') (py ''No title available'')) = Some b"
    "map_of (snd (update_readme [] IoOk example_archive)) (py ''README.md'') = Some (File b)"
    "\<forall>n. n \<noteq> py ''README.md''
        \<longrightarrow> map_of (snd (update_readme [] IoOk example_archive)) n = map_of example_archive n"
    by blast
  have s: "map_of example_archive (py ''src'') = Some (Dir [])"
    using k by (simp add: example_archive_def)
  from p1 ok b s k show ?thesis by simp
qed

end
